theory Spec2Isabelle
  imports Complex_Main "HOL-Library.Multiset"
begin

section \<open>Schema model (src/lib/dbml/parser.ts)\<close>

text \<open>
  The interfaces of the parser module, one record per interface. JavaScript numbers are
  modelled as \<open>real\<close> (coordinates, displacements) or \<open>nat\<close> (string lengths, indices);
  rounding, infinities and NaN of IEEE doubles are outside the model. Strings are
  \<open>string\<close>, template literals are concatenation.
\<close>

record SchemaColumn =
  col_name :: string
  col_type :: string
  col_pk :: bool
  col_unique :: bool
  col_notNull :: bool
  col_increment :: bool
  col_defaultValue :: "string option"
  col_note :: "string option"

record SchemaTable =
  tbl_name :: string
  tbl_schema :: string
  tbl_columns :: "SchemaColumn list"
  tbl_note :: "string option"
  tbl_headerColor :: "string option"

record SchemaRef =
  ref_name :: string
  fromSchema :: string
  fromTable :: string
  fromColumns :: "string list"
  fromRelation :: string
  toSchema :: string
  toTable :: string
  toColumns :: "string list"
  toRelation :: string
  onDelete :: "string option"
  onUpdate :: "string option"

record GroupMember =
  schemaName :: string
  tableName :: string

record SchemaTableGroup =
  grp_name :: string
  grp_tables :: "GroupMember list"
  grp_color :: "string option"
  grp_note :: "string option"

record EnumValue =
  ev_name :: string
  ev_note :: "string option"

record SchemaEnum =
  enum_name :: string
  enum_schema :: string
  enum_values :: "EnumValue list"

record ParsedSchema =
  tables :: "SchemaTable list"
  refs :: "SchemaRef list"
  enums :: "SchemaEnum list"
  tableGroups :: "SchemaTableGroup list"

section \<open>Layout results (src/lib/dbml/layout.ts, interfaces)\<close>

record point =
  px :: real
  py :: real

text \<open>
  \<open>ref\<close> of a \<open>LayoutEdge\<close> is filled from \<open>survivingRefs[i]\<close>, which is \<open>undefined\<close>
  when the index is out of range: the field is an option, \<open>None\<close> for \<open>undefined\<close>.
  The same holds for \<open>table\<close> of a \<open>LayoutNode\<close> (\<open>tableMap.get(id)!\<close>).
\<close>

record LayoutEdge =
  edge_id :: string
  ref :: "SchemaRef option"
  points :: "point list"

record LayoutNode =
  node_id :: string
  node_x :: real
  node_y :: real
  node_width :: real
  node_height :: real
  node_table :: "SchemaTable option"

record LayoutGroup =
  group_id :: string
  group_x :: real
  group_y :: real
  group_width :: real
  group_height :: real
  group_name :: string
  group_color :: "string option"

record LayoutResult =
  nodes :: "LayoutNode list"
  edges :: "LayoutEdge list"
  groups :: "LayoutGroup list"
  width :: real
  height :: real

section \<open>Graph builder (src/lib/dbml/layout.ts)\<close>

datatype LayoutDirection = RIGHT | LEFT | DOWN | UP

definition TABLE_MIN_WIDTH :: nat where "TABLE_MIN_WIDTH = 200"
definition TABLE_MAX_WIDTH :: nat where "TABLE_MAX_WIDTH = 360"
definition CHAR_WIDTH :: nat where "CHAR_WIDTH = 8"
definition TABLE_PADDING_X :: nat where "TABLE_PADDING_X = 24"

text \<open>\<open>Array.prototype.join\<close>\<close>

fun join :: "string \<Rightarrow> string list \<Rightarrow> string" where
  "join sep [] = []"
| "join sep [s] = s"
| "join sep (s # t # ts) = s @ sep @ join sep (t # ts)"

definition constraintStr :: "SchemaColumn \<Rightarrow> string" where
  "constraintStr col =
     (let constraintParts =
            (if col_pk col then [''PK''] else [])
          @ (if col_unique col then [''UQ''] else [])
          @ (if col_notNull col then [''NN''] else [])
          @ (if col_increment col then [''AI''] else [])
      in if length constraintParts > 0 then ''  '' @ join '' '' constraintParts else [])"

definition lineLen :: "SchemaColumn \<Rightarrow> nat" where
  "lineLen col = length (col_name col) + length (col_type col) + 3 + length (constraintStr col)"

text \<open>The loop of \<open>estimateTableWidth\<close>, with \<open>maxLen\<close> as its accumulator.\<close>

fun maxLenLoop :: "SchemaColumn list \<Rightarrow> nat \<Rightarrow> nat" where
  "maxLenLoop [] maxLen = maxLen"
| "maxLenLoop (col # cols) maxLen =
     maxLenLoop cols (if lineLen col > maxLen then lineLen col else maxLen)"

definition estimateTableWidth :: "SchemaTable \<Rightarrow> nat" where
  "estimateTableWidth table =
     (let maxLen = maxLenLoop (tbl_columns table) (length (tbl_name table))
      in min TABLE_MAX_WIDTH (max TABLE_MIN_WIDTH (maxLen * CHAR_WIDTH + TABLE_PADDING_X * 2)))"

definition tableNodeId :: "SchemaTable \<Rightarrow> string" where
  "tableNodeId table = tbl_schema table @ ''.'' @ tbl_name table"

datatype side = left | right

fun sideStr :: "side \<Rightarrow> string" where
  "sideStr left = ''left''"
| "sideStr right = ''right''"

definition portId :: "SchemaTable \<Rightarrow> string \<Rightarrow> side \<Rightarrow> string" where
  "portId table columnName sd = tableNodeId table @ ''.'' @ columnName @ ''.'' @ sideStr sd"

definition groupNodeId :: "SchemaTableGroup \<Rightarrow> string" where
  "groupNodeId grp = ''group:'' @ grp_name grp"

text \<open>
  The graph handed to the solver. Of a table node the model keeps the id, the width and
  the port ids, in the order they are pushed (per column: right, then left); the height,
  the port coordinates and the constant layout options are left out, no property below
  depends on them. A top-level child is a table node or a group's compound node that
  holds table nodes.
\<close>

record ElkTableNode =
  elk_id :: string
  elk_width :: nat
  elk_ports :: "string list"

datatype ElkNode =
    TableNode ElkTableNode
  | GroupNode string "ElkTableNode list"

record ElkEdge =
  elkedge_id :: string
  sources :: "string list"
  targets :: "string list"

record ElkGraph =
  graph_direction :: LayoutDirection
  graph_children :: "ElkNode list"
  graph_edges :: "ElkEdge list"

definition buildTableElkNode :: "SchemaTable \<Rightarrow> LayoutDirection \<Rightarrow> ElkTableNode" where
  "buildTableElkNode table direction =
     \<lparr>elk_id = tableNodeId table,
      elk_width = estimateTableWidth table,
      elk_ports = concat (map (\<lambda>col. [portId table (col_name col) right,
                                        portId table (col_name col) left])
                              (tbl_columns table))\<rparr>"

text \<open>\<open>tableMap\<close>: filled in list order, a later table replaces an earlier one of the same key.\<close>

definition mkTableMap :: "SchemaTable list \<Rightarrow> (string \<rightharpoonup> SchemaTable)" where
  "mkTableMap ts = fold (\<lambda>t m. m(tbl_schema t @ ''.'' @ tbl_name t \<mapsto> t)) ts Map.empty"

definition memberKey :: "GroupMember \<Rightarrow> string" where
  "memberKey m = schemaName m @ ''.'' @ tableName m"

text \<open>\<open>tableToGroup\<close>: every member key of every group, mapped to the last group naming it.\<close>

definition mkTableToGroup :: "SchemaTableGroup list \<Rightarrow> (string \<rightharpoonup> SchemaTableGroup)" where
  "mkTableToGroup gs =
     fold (\<lambda>grp m. fold (\<lambda>r m'. m'(memberKey r \<mapsto> grp)) (grp_tables grp) m) gs Map.empty"

text \<open>The inner loop over a group's members: a member that resolves pushes its table's node.\<close>

fun groupChildren ::
  "(string \<rightharpoonup> SchemaTable) \<Rightarrow> LayoutDirection \<Rightarrow> GroupMember list \<Rightarrow> ElkTableNode list" where
  "groupChildren tableMap direction [] = []"
| "groupChildren tableMap direction (r # rs) =
     (case tableMap (memberKey r) of
        Some table \<Rightarrow> buildTableElkNode table direction # groupChildren tableMap direction rs
      | None \<Rightarrow> groupChildren tableMap direction rs)"

text \<open>The loop over the groups: a group with no resolving member is skipped.\<close>

fun groupNodes ::
  "(string \<rightharpoonup> SchemaTable) \<Rightarrow> LayoutDirection \<Rightarrow> SchemaTableGroup list \<Rightarrow> ElkNode list" where
  "groupNodes tableMap direction [] = []"
| "groupNodes tableMap direction (grp # gs) =
     (let cs = groupChildren tableMap direction (grp_tables grp)
      in if length cs = 0 then groupNodes tableMap direction gs
         else GroupNode (groupNodeId grp) cs # groupNodes tableMap direction gs)"

text \<open>\<open>connectionCount\<close>, read with \<open>|| 0\<close>: a total function that is 0 off the counted keys.\<close>

definition mkConnectionCount :: "SchemaRef list \<Rightarrow> (string \<Rightarrow> nat)" where
  "mkConnectionCount rs =
     fold (\<lambda>r c.
             (let fk = fromSchema r @ ''.'' @ fromTable r;
                  tk = toSchema r @ ''.'' @ toTable r;
                  c1 = c(fk := c fk + 1)
              in c1(tk := c1 tk + 1)))
          rs (\<lambda>_. 0)"

text \<open>
  The ungrouped tables, sorted by descending connection count. \<open>Array.prototype.sort\<close> is
  stable, as \<open>sort_key\<close> is.
\<close>

definition ungroupedTables :: "ParsedSchema \<Rightarrow> SchemaTable list" where
  "ungroupedTables schema =
     (let tableToGroup = mkTableToGroup (tableGroups schema);
          connectionCount = mkConnectionCount (refs schema)
      in sort_key (\<lambda>t. - int (connectionCount (tableNodeId t)))
           (filter (\<lambda>t. tableToGroup (tableNodeId t) = None) (tables schema)))"

definition topLevelChildren :: "ParsedSchema \<Rightarrow> LayoutDirection \<Rightarrow> ElkNode list" where
  "topLevelChildren schema direction =
     groupNodes (mkTableMap (tables schema)) direction (tableGroups schema)
     @ map (\<lambda>table. TableNode (buildTableElkNode table direction)) (ungroupedTables schema)"

text \<open>\<open>String(n)\<close> for a natural number: its decimal digits.\<close>

fun showNat :: "nat \<Rightarrow> string" where
  "showNat n =
     (if n < 10 then [''0123456789'' ! n]
      else showNat (n div 10) @ [''0123456789'' ! (n mod 10)])"

declare showNat.simps [simp del]

text \<open>\<open>cols[0] || ''\<close>\<close>

definition firstCol :: "string list \<Rightarrow> string" where
  "firstCol cols = (case cols of [] \<Rightarrow> [] | c # _ \<Rightarrow> c)"

text \<open>
  The loop over the references, with the two arrays it pushes to as accumulators: a
  reference with an endpoint missing from \<open>tableMap\<close> is skipped (\<open>continue\<close>).
\<close>

fun buildEdges ::
  "(string \<rightharpoonup> SchemaTable) \<Rightarrow> SchemaRef list \<Rightarrow> ElkEdge list \<Rightarrow> SchemaRef list
     \<Rightarrow> ElkEdge list \<times> SchemaRef list" where
  "buildEdges tableMap [] es survivingRefs = (es, survivingRefs)"
| "buildEdges tableMap (r # rs) es survivingRefs =
     (case tableMap (fromSchema r @ ''.'' @ fromTable r) of
        None \<Rightarrow> buildEdges tableMap rs es survivingRefs
      | Some fromTbl \<Rightarrow>
          (case tableMap (toSchema r @ ''.'' @ toTable r) of
             None \<Rightarrow> buildEdges tableMap rs es survivingRefs
           | Some toTbl \<Rightarrow>
               buildEdges tableMap rs
                 (es @ [\<lparr>elkedge_id = ''e'' @ showNat (length es),
                         sources = [portId fromTbl (firstCol (fromColumns r)) right],
                         targets = [portId toTbl (firstCol (toColumns r)) left]\<rparr>])
                 (survivingRefs @ [r])))"

definition buildGraph :: "ParsedSchema \<Rightarrow> LayoutDirection \<Rightarrow> ElkGraph" where
  "buildGraph schema direction =
     \<lparr>graph_direction = direction,
      graph_children = topLevelChildren schema direction,
      graph_edges = fst (buildEdges (mkTableMap (tables schema)) (refs schema) [] [])\<rparr>"

section \<open>Layout invocation and extraction (src/lib/dbml/layout.ts)\<close>

text \<open>
  What \<open>elk.layout\<close> resolves to, as far as \<open>computeLayout\<close> reads it. Optional properties
  (\<open>child.children || []\<close>, \<open>if (edge.sections)\<close>) are options.
\<close>

record ElkResultLeaf =
  leaf_id :: string
  leaf_x :: real
  leaf_y :: real
  leaf_width :: real
  leaf_height :: real

record ElkResultChild =
  child_id :: string
  child_x :: real
  child_y :: real
  child_width :: real
  child_height :: real
  child_children :: "ElkResultLeaf list option"

record ElkSection =
  startPoint :: point
  bendPoints :: "point list option"
  endPoint :: point

record ElkResultEdge =
  resedge_id :: string
  sections :: "ElkSection list option"

record ElkResult =
  result_children :: "ElkResultChild list option"
  result_edges :: "ElkResultEdge list option"
  result_width :: "real option"
  result_height :: "real option"

text \<open>\<open>xs || []\<close>\<close>

definition orEmpty :: "'a list option \<Rightarrow> 'a list" where
  "orEmpty xs = (case xs of None \<Rightarrow> [] | Some ys \<Rightarrow> ys)"

definition mkGroupByElkId :: "SchemaTableGroup list \<Rightarrow> (string \<rightharpoonup> SchemaTableGroup)" where
  "mkGroupByElkId gs = fold (\<lambda>grp m. m(groupNodeId grp \<mapsto> grp)) gs Map.empty"

text \<open>The inner loop over the grandchildren of a group's node \<open>child\<close>.\<close>

fun extractGrandchildren ::
  "(string \<rightharpoonup> SchemaTable) \<Rightarrow> ElkResultChild \<Rightarrow> ElkResultLeaf list \<Rightarrow> LayoutNode list
     \<Rightarrow> LayoutNode list" where
  "extractGrandchildren tableMap child [] ns = ns"
| "extractGrandchildren tableMap child (grandchild # rest) ns =
     extractGrandchildren tableMap child rest
       (ns @ [\<lparr>node_id = leaf_id grandchild,
               node_x = child_x child + leaf_x grandchild,
               node_y = child_y child + leaf_y grandchild,
               node_width = leaf_width grandchild,
               node_height = leaf_height grandchild,
               node_table = tableMap (leaf_id grandchild)\<rparr>])"

text \<open>The loop over \<open>result.children\<close>, with \<open>nodes\<close> and \<open>groups\<close> as accumulators.\<close>

fun extractChildren ::
  "(string \<rightharpoonup> SchemaTableGroup) \<Rightarrow> (string \<rightharpoonup> SchemaTable) \<Rightarrow> ElkResultChild list
     \<Rightarrow> LayoutNode list \<Rightarrow> LayoutGroup list \<Rightarrow> LayoutNode list \<times> LayoutGroup list" where
  "extractChildren groupByElkId tableMap [] ns gs = (ns, gs)"
| "extractChildren groupByElkId tableMap (child # rest) ns gs =
     (case groupByElkId (child_id child) of
        Some schemaGroup \<Rightarrow>
          extractChildren groupByElkId tableMap rest
            (extractGrandchildren tableMap child (orEmpty (child_children child)) ns)
            (gs @ [\<lparr>group_id = child_id child,
                    group_x = child_x child,
                    group_y = child_y child,
                    group_width = child_width child,
                    group_height = child_height child,
                    group_name = grp_name schemaGroup,
                    group_color = grp_color schemaGroup\<rparr>])
      | None \<Rightarrow>
          extractChildren groupByElkId tableMap rest
            (ns @ [\<lparr>node_id = child_id child,
                    node_x = child_x child,
                    node_y = child_y child,
                    node_width = child_width child,
                    node_height = child_height child,
                    node_table = tableMap (child_id child)\<rparr>])
            gs)"

text \<open>The polyline of a result edge: per section, start point, bend points, end point.\<close>

definition edgePoints :: "ElkResultEdge \<Rightarrow> point list" where
  "edgePoints edge =
     (case sections edge of
        None \<Rightarrow> []
      | Some secs \<Rightarrow>
          concat (map (\<lambda>section. startPoint section # orEmpty (bendPoints section)
                                  @ [endPoint section]) secs))"

text \<open>\<open>survivingRefs[i]\<close>: \<open>undefined\<close> out of range.\<close>

definition nthOpt :: "'a list \<Rightarrow> nat \<Rightarrow> 'a option" where
  "nthOpt xs i = (if i < length xs then Some (xs ! i) else None)"

definition layoutEdges :: "SchemaRef list \<Rightarrow> ElkResultEdge list \<Rightarrow> LayoutEdge list" where
  "layoutEdges survivingRefs es =
     map (\<lambda>(i, edge). \<lparr>edge_id = resedge_id edge,
                        ref = nthOpt survivingRefs i,
                        points = edgePoints edge\<rparr>)
         (enumerate 0 es)"

datatype solver_error = SolverError string

text \<open>
  \<open>computeLayout\<close>. The solver is an external collaborator: the model takes it as a
  parameter, a function from the submitted graph to a result or to the error with which
  the awaited promise rejects. A rejection propagates to the caller.
\<close>

definition computeLayout ::
  "(ElkGraph \<Rightarrow> solver_error + ElkResult) \<Rightarrow> ParsedSchema \<Rightarrow> LayoutDirection
     \<Rightarrow> solver_error + LayoutResult" where
  "computeLayout elkLayout schema direction =
     (let tableMap = mkTableMap (tables schema);
          (es, survivingRefs) = buildEdges tableMap (refs schema) [] [];
          graph = \<lparr>graph_direction = direction,
                   graph_children = topLevelChildren schema direction,
                   graph_edges = es\<rparr>
      in case elkLayout graph of
           Inl err \<Rightarrow> Inl err
         | Inr result \<Rightarrow>
             (let groupByElkId = mkGroupByElkId (tableGroups schema);
                  (ns, gs) = extractChildren groupByElkId tableMap
                               (orEmpty (result_children result)) [] []
              in Inr \<lparr>nodes = ns,
                      edges = layoutEdges survivingRefs (orEmpty (result_edges result)),
                      groups = gs,
                      width = (case result_width result of None \<Rightarrow> 0 | Some w \<Rightarrow> w),
                      height = (case result_height result of None \<Rightarrow> 0 | Some h \<Rightarrow> h)\<rparr>))"

section \<open>Interactive offsets (src/lib/components/Diagram.svelte)\<close>

record offset =
  dx :: real
  dy :: real

type_synonym offsets = "string \<rightharpoonup> offset"

datatype error = TypeError

text \<open>\<open>nodeOffsets[k] ?? { dx: 0, dy: 0 }\<close>\<close>

definition offsetOr0 :: "offsets \<Rightarrow> string \<Rightarrow> offset" where
  "offsetOr0 nodeOffsets k =
     (case nodeOffsets k of None \<Rightarrow> \<lparr>dx = 0, dy = 0\<rparr> | Some v \<Rightarrow> v)"

text \<open>\<open>nodeX\<close>, \<open>nodeY\<close>: layout position plus drag offset, \<open>?? 0\<close> for an absent entry.\<close>

definition nodeX :: "offsets \<Rightarrow> LayoutNode \<Rightarrow> real" where
  "nodeX nodeOffsets node =
     node_x node + (case nodeOffsets (node_id node) of None \<Rightarrow> 0 | Some v \<Rightarrow> dx v)"

definition nodeY :: "offsets \<Rightarrow> LayoutNode \<Rightarrow> real" where
  "nodeY nodeOffsets node =
     node_y node + (case nodeOffsets (node_id node) of None \<Rightarrow> 0 | Some v \<Rightarrow> dy v)"

text \<open>
  \<open>edgeNodeIds\<close> reads \<open>edge.ref.fromSchema\<close>: on an edge whose \<open>ref\<close> is \<open>undefined\<close>
  the property access throws a TypeError.
\<close>

definition edgeNodeIds :: "LayoutEdge \<Rightarrow> error + (string \<times> string)" where
  "edgeNodeIds edge =
     (case ref edge of
        None \<Rightarrow> Inl TypeError
      | Some r \<Rightarrow> Inr (fromSchema r @ ''.'' @ fromTable r, toSchema r @ ''.'' @ toTable r))"

text \<open>The loop filling \<open>segH\<close>: one entry per consecutive point pair.\<close>

fun segH :: "point list \<Rightarrow> bool list" where
  "segH (p # q # rest) = (\<bar>px q - px p\<bar> \<ge> \<bar>py q - py p\<bar>) # segH (q # rest)"
| "segH [p] = []"
| "segH [] = []"

text \<open>
  One step of either propagation: across a horizontal segment only \<open>dy\<close> is kept,
  across a vertical one only \<open>dx\<close>.
\<close>

definition carry :: "bool \<Rightarrow> offset \<Rightarrow> offset" where
  "carry h off = (if h then \<lparr>dx = 0, dy = dy off\<rparr> else \<lparr>dx = dx off, dy = 0\<rparr>)"

text \<open>
  The forward loop: \<open>fwd[0]\<close> is the given offset, \<open>fwd[i]\<close> is computed from
  \<open>fwd[i - 1]\<close> and \<open>segH[i - 1]\<close>. \<open>fwd off hs\<close> is the whole array.
\<close>

fun fwd :: "offset \<Rightarrow> bool list \<Rightarrow> offset list" where
  "fwd off [] = [off]"
| "fwd off (h # hs) = off # fwd (carry h off) hs"

text \<open>
  The backward loop: \<open>bwd[n - 1]\<close> is the given offset, \<open>bwd[i]\<close> is computed from
  \<open>bwd[i + 1]\<close> and \<open>segH[i]\<close>, for \<open>i\<close> from \<open>n - 2\<close> down to \<open>0\<close>.
\<close>

fun bwd :: "offset \<Rightarrow> bool list \<Rightarrow> offset list" where
  "bwd off [] = [off]"
| "bwd off (h # hs) =
     (case bwd off hs of
        b # bs \<Rightarrow> carry h b # b # bs
      | [] \<Rightarrow> [])"

definition shift :: "point \<Rightarrow> offset \<Rightarrow> point" where
  "shift p off = \<lparr>px = px p + dx off, py = py p + dy off\<rparr>"

text \<open>The final \<open>pts.map\<close> of the general case.\<close>

fun combine :: "point list \<Rightarrow> offset list \<Rightarrow> offset list \<Rightarrow> point list" where
  "combine (pt # pts) (f # fs) (b # bs) =
     \<lparr>px = px pt + dx f + dx b, py = py pt + dy f + dy b\<rparr> # combine pts fs bs"
| "combine _ _ _ = []"

definition adjustedPoints :: "offsets \<Rightarrow> LayoutEdge \<Rightarrow> error + point list" where
  "adjustedPoints nodeOffsets edge =
     (case edgeNodeIds edge of
        Inl e \<Rightarrow> Inl e
      | Inr (fromId, toId) \<Rightarrow>
          (let fromOff = offsetOr0 nodeOffsets fromId;
               toOff = offsetOr0 nodeOffsets toId
           in if dx fromOff = 0 \<and> dy fromOff = 0 \<and> dx toOff = 0 \<and> dy toOff = 0
              then Inr (points edge)
              else
                (let pts = points edge; n = length pts
                 in if n \<le> 1 then Inr (map (\<lambda>p. shift p fromOff) pts)
                    else if n = 2 then
                      (let p0 = shift (pts ! 0) fromOff;
                           p1 = shift (pts ! 1) toOff;
                           isH = (\<bar>px (pts ! 1) - px (pts ! 0)\<bar> \<ge> \<bar>py (pts ! 1) - py (pts ! 0)\<bar>)
                       in if isH
                          then (let midX = (px p0 + px p1) / 2
                                in Inr [p0, \<lparr>px = midX, py = py p0\<rparr>, \<lparr>px = midX, py = py p1\<rparr>, p1])
                          else (let midY = (py p0 + py p1) / 2
                                in Inr [p0, \<lparr>px = px p0, py = midY\<rparr>, \<lparr>px = px p1, py = midY\<rparr>, p1]))
                    else Inr (combine pts (fwd fromOff (segH pts)) (bwd toOff (segH pts))))))"

text \<open>"Every consecutive point pair is axis-aligned (one coordinate equal)".\<close>

fun axisAligned :: "point list \<Rightarrow> bool" where
  "axisAligned (p # q # rest) = ((px p = px q \<or> py p = py q) \<and> axisAligned (q # rest))"
| "axisAligned [p] = True"
| "axisAligned [] = True"

subsection \<open>Component state and drag handlers\<close>

text \<open>
  The \<open>layout\<close> prop holds an object; \<open>layout !== prevLayout\<close> compares identities, not
  contents, so the model gives each layout object an identity. Every call of
  \<open>computeLayout\<close> returns a new object.
\<close>

record layout_obj =
  obj_ident :: nat
  obj_value :: LayoutResult

text \<open>
  What the closures \<open>onMouseMove\<close> and \<open>onMouseUp\<close> of one \<open>onNodeMouseDown\<close> call
  capture. \<open>scale\<close> is parsed from the transform attribute of the zoomed group element,
  which the zoom behaviour maintains: the model takes it as an input of the gesture.
\<close>

record gesture =
  g_node :: string
  g_startX :: real
  g_startY :: real
  g_startDx :: real
  g_startDy :: real
  g_scale :: real

text \<open>\<open>listeners\<close>: the gestures whose two closures are registered on \<open>document\<close>.\<close>

record component =
  layout :: "layout_obj option"
  prevLayout :: "layout_obj option"
  nodeOffsets :: offsets
  draggingNodeId :: "string option"
  listeners :: "gesture list"

text \<open>The \<open>$effect\<close> that runs when the \<open>layout\<close> prop changes.\<close>

definition layoutEffect :: "component \<Rightarrow> component" where
  "layoutEffect s =
     (case layout s of
        None \<Rightarrow> s
      | Some l \<Rightarrow>
          if map_option obj_ident (prevLayout s) \<noteq> Some (obj_ident l)
          then s\<lparr>nodeOffsets := Map.empty, prevLayout := layout s\<rparr>
          else s)"

definition onNodeMouseDown ::
  "int \<Rightarrow> real \<Rightarrow> real \<Rightarrow> real \<Rightarrow> LayoutNode \<Rightarrow> component \<Rightarrow> component" where
  "onNodeMouseDown button clientX clientY scale node s =
     (if button \<noteq> 0 then s
      else s\<lparr>draggingNodeId := Some (node_id node),
              listeners := listeners s @
                [\<lparr>g_node = node_id node,
                  g_startX = clientX,
                  g_startY = clientY,
                  g_startDx = (case nodeOffsets s (node_id node) of None \<Rightarrow> 0 | Some v \<Rightarrow> dx v),
                  g_startDy = (case nodeOffsets s (node_id node) of None \<Rightarrow> 0 | Some v \<Rightarrow> dy v),
                  g_scale = scale\<rparr>]\<rparr>)"

definition onMouseMove :: "gesture \<Rightarrow> real \<Rightarrow> real \<Rightarrow> component \<Rightarrow> component" where
  "onMouseMove g clientX clientY s =
     s\<lparr>nodeOffsets := (nodeOffsets s)
         (g_node g \<mapsto> \<lparr>dx = g_startDx g + (clientX - g_startX g) / g_scale g,
                      dy = g_startDy g + (clientY - g_startY g) / g_scale g\<rparr>)\<rparr>"

definition onMouseUp :: "gesture \<Rightarrow> component \<Rightarrow> component" where
  "onMouseUp g s = s\<lparr>draggingNodeId := None, listeners := remove1 g (listeners s)\<rparr>"

text \<open>
  The events the component reacts to: a mouse press on a node (button, pointer position,
  current zoom scale, the node), a pointer move and a button release on the document
  (dispatched to every registered listener, in registration order), and a new value of
  the \<open>layout\<close> prop.
\<close>

datatype event =
    NodeMouseDown int real real real LayoutNode
  | DocMouseMove real real
  | DocMouseUp
  | LayoutProp "layout_obj option"

fun step :: "component \<Rightarrow> event \<Rightarrow> component" where
  "step s (NodeMouseDown button clientX clientY scale node) =
     onNodeMouseDown button clientX clientY scale node s"
| "step s (DocMouseMove clientX clientY) =
     fold (\<lambda>g. onMouseMove g clientX clientY) (listeners s) s"
| "step s DocMouseUp = fold onMouseUp (listeners s) s"
| "step s (LayoutProp l) = layoutEffect (s\<lparr>layout := l\<rparr>)"

definition run :: "component \<Rightarrow> event list \<Rightarrow> component" where
  "run s evs = foldl step s evs"

fun isDragEvent :: "event \<Rightarrow> bool" where
  "isDragEvent (LayoutProp l) = False"
| "isDragEvent _ = True"

subsection \<open>Arrays as objects\<close>

text \<open>
  To tell the array \<open>adjustedPoints\<close> returns from the array it was given, point arrays
  live in a store, addressed by their index; allocation appends. An edge object holds the
  address of its \<open>points\<close> array. \<open>adjustedPointsRef\<close> is \<open>adjustedPoints\<close> on such an edge:
  the early \<open>return edge.points\<close> returns the address it read, every other \<open>return\<close>
  builds a new array (\<open>pts.map\<close>, an array literal). The function contains no assignment
  to an element of \<open>pts\<close> or to a property of a point.
\<close>

type_synonym store = "point list list"

record EdgeObj =
  eo_id :: string
  eo_ref :: "SchemaRef option"
  eo_points :: nat

definition load :: "store \<Rightarrow> EdgeObj \<Rightarrow> LayoutEdge" where
  "load st e = \<lparr>edge_id = eo_id e, ref = eo_ref e, points = st ! eo_points e\<rparr>"

definition adjustedPointsRef :: "offsets \<Rightarrow> store \<Rightarrow> EdgeObj \<Rightarrow> error + (nat \<times> store)" where
  "adjustedPointsRef offs st e =
     (case edgeNodeIds (load st e) of
        Inl err \<Rightarrow> Inl err
      | Inr (fromId, toId) \<Rightarrow>
          (let fromOff = offsetOr0 offs fromId;
               toOff = offsetOr0 offs toId
           in if dx fromOff = 0 \<and> dy fromOff = 0 \<and> dx toOff = 0 \<and> dy toOff = 0
              then Inr (eo_points e, st)
              else (case adjustedPoints offs (load st e) of
                      Inl err \<Rightarrow> Inl err
                    | Inr ps \<Rightarrow> Inr (length st, st @ [ps]))))"

section \<open>The properties, in the words of the specification\<close>

text \<open>A node's map entry "is absent or equal to (0,0)".\<close>

definition undisplaced :: "offsets \<Rightarrow> string \<Rightarrow> bool" where
  "undisplaced offs k = (offs k = None \<or> offs k = Some \<lparr>dx = 0, dy = 0\<rparr>)"

text \<open>Node \<open>k\<close>'s displacement is \<open>v\<close>: its entry in the map, or (0,0) when it has none.\<close>

definition hasDisplacement :: "offsets \<Rightarrow> string \<Rightarrow> offset \<Rightarrow> bool" where
  "hasDisplacement offs k v = (offs k = Some v \<or> offs k = None \<and> v = \<lparr>dx = 0, dy = 0\<rparr>)"

text \<open>The two endpoint node ids of a reference.\<close>

definition fromKey :: "SchemaRef \<Rightarrow> string" where
  "fromKey r = fromSchema r @ ''.'' @ fromTable r"

definition toKey :: "SchemaRef \<Rightarrow> string" where
  "toKey r = toSchema r @ ''.'' @ toTable r"

text \<open>"Both endpoint tables resolve against the schema's table set".\<close>

definition resolves :: "ParsedSchema \<Rightarrow> SchemaRef \<Rightarrow> bool" where
  "resolves schema r =
     (fromKey r \<in> set (map tableNodeId (tables schema))
      \<and> toKey r \<in> set (map tableNodeId (tables schema)))"

text \<open>
  The column a reference is anchored at on one side: the first of its columns, the empty
  name when it has none.
\<close>

definition anchorColumn :: "string list \<Rightarrow> string" where
  "anchorColumn cols = (if cols = [] then [] else hd cols)"

text \<open>
  The edge the builder submits for the \<open>i\<close>-th surviving reference \<open>r\<close>: from the right
  port of the anchor column on the source table to the left port of the anchor column on
  the target table.
\<close>

definition specEdge :: "nat \<Rightarrow> SchemaRef \<Rightarrow> ElkEdge" where
  "specEdge i r =
     \<lparr>elkedge_id = ''e'' @ showNat i,
      sources = [fromKey r @ ''.'' @ anchorColumn (fromColumns r) @ ''.right''],
      targets = [toKey r @ ''.'' @ anchorColumn (toColumns r) @ ''.left'']\<rparr>"

text \<open>
  The edge claim as worded, for every schema and with no condition on the solver call:
  the layout is returned, with exactly one \<open>LayoutEdge\<close> per resolving reference, in
  order.
\<close>

definition claimedEdges ::
  "(ElkGraph \<Rightarrow> solver_error + ElkResult) \<Rightarrow> ParsedSchema \<Rightarrow> LayoutDirection \<Rightarrow> bool" where
  "claimedEdges elkLayout schema direction =
     (case computeLayout elkLayout schema direction of
        Inl err \<Rightarrow> False
      | Inr L \<Rightarrow> map ref (edges L) = map Some (filter (resolves schema) (refs schema)))"

text \<open>
  The width as the width claim words it: the maximum is taken over the column rows only.
\<close>

definition claimedTableWidth :: "SchemaTable \<Rightarrow> nat" where
  "claimedTableWidth table =
     min 360 (max 200 (Max (set (map lineLen (tbl_columns table))) * 8 + 2 * 24))"

text \<open>
  The table of identity \<open>k\<close> in a schema, and the group whose compound node has id \<open>k\<close>
  (the last one in the list, should several share it).
\<close>

definition tableWithId :: "ParsedSchema \<Rightarrow> string \<Rightarrow> SchemaTable option" where
  "tableWithId schema k = find (\<lambda>t. tableNodeId t = k) (rev (tables schema))"

definition groupWithNodeId :: "ParsedSchema \<Rightarrow> string \<Rightarrow> SchemaTableGroup option" where
  "groupWithNodeId schema k = find (\<lambda>g. groupNodeId g = k) (rev (tableGroups schema))"

text \<open>
  Extraction as the specification words it, per top-level child \<open>c\<close>: the node of a
  grandchild \<open>gc\<close>, at the group's origin plus the grandchild's position; the node of a
  plain table, at the child's own position; the nodes and the groups a child yields, where
  a child corresponds to a group when its id is the node id of a group of the schema.
\<close>

definition specMemberNode :: "ParsedSchema \<Rightarrow> ElkResultChild \<Rightarrow> ElkResultLeaf \<Rightarrow> LayoutNode" where
  "specMemberNode schema c gc =
     \<lparr>node_id = leaf_id gc, node_x = child_x c + leaf_x gc, node_y = child_y c + leaf_y gc,
      node_width = leaf_width gc, node_height = leaf_height gc,
      node_table = tableWithId schema (leaf_id gc)\<rparr>"

definition specPlainNode :: "ParsedSchema \<Rightarrow> ElkResultChild \<Rightarrow> LayoutNode" where
  "specPlainNode schema c =
     \<lparr>node_id = child_id c, node_x = child_x c, node_y = child_y c,
      node_width = child_width c, node_height = child_height c,
      node_table = tableWithId schema (child_id c)\<rparr>"

definition specNodes :: "ParsedSchema \<Rightarrow> ElkResultChild \<Rightarrow> LayoutNode list" where
  "specNodes schema c =
     (if child_id c \<in> set (map groupNodeId (tableGroups schema))
      then map (specMemberNode schema c) (orEmpty (child_children c))
      else [specPlainNode schema c])"

definition specGroups :: "ParsedSchema \<Rightarrow> ElkResultChild \<Rightarrow> LayoutGroup list" where
  "specGroups schema c =
     (case groupWithNodeId schema (child_id c) of
        Some g \<Rightarrow> [\<lparr>group_id = child_id c, group_x = child_x c, group_y = child_y c,
                    group_width = child_width c, group_height = child_height c,
                    group_name = grp_name g, group_color = grp_color g\<rparr>]
      | None \<Rightarrow> [])"

text \<open>
  What the extraction claim asks of a layout \<open>L\<close> extracted from a solver result: for each
  top-level child that corresponds to a group, its bounding box among the groups and each
  grandchild's node among the nodes; for each top-level child that is a table of the
  schema, its node among the nodes.
\<close>

definition boxOf :: "LayoutGroup \<Rightarrow> string \<times> real \<times> real \<times> real \<times> real" where
  "boxOf g = (group_id g, group_x g, group_y g, group_width g, group_height g)"

definition recordedAsClaimed :: "ParsedSchema \<Rightarrow> ElkResult \<Rightarrow> LayoutResult \<Rightarrow> bool" where
  "recordedAsClaimed schema result L =
     list_all
       (\<lambda>c. (child_id c \<in> set (map groupNodeId (tableGroups schema)) \<longrightarrow>
                (child_id c, child_x c, child_y c, child_width c, child_height c)
                   \<in> set (map boxOf (groups L))
                \<and> list_all (\<lambda>gc. specMemberNode schema c gc \<in> set (nodes L))
                            (orEmpty (child_children c)))
           \<and> (child_id c \<in> set (map tableNodeId (tables schema)) \<longrightarrow>
                specPlainNode schema c \<in> set (nodes L)))
       (orEmpty (result_children result))"

text \<open>The extraction claim as worded, with no condition on the schema.\<close>

definition claimedExtraction ::
  "(ElkGraph \<Rightarrow> solver_error + ElkResult) \<Rightarrow> ParsedSchema \<Rightarrow> LayoutDirection \<Rightarrow> bool" where
  "claimedExtraction elkLayout schema direction =
     (case elkLayout (buildGraph schema direction) of
        Inl err \<Rightarrow> True
      | Inr result \<Rightarrow>
          (case computeLayout elkLayout schema direction of
             Inl err \<Rightarrow> False
           | Inr L \<Rightarrow> recordedAsClaimed schema result L))"

text \<open>
  The node ids of the submitted graph: of the table nodes alone, at either level, and of
  all nodes, compound nodes included.
\<close>

fun tableIdsOf :: "ElkNode \<Rightarrow> string list" where
  "tableIdsOf (TableNode t) = [elk_id t]"
| "tableIdsOf (GroupNode gid cs) = map elk_id cs"

fun nodeIdsOf :: "ElkNode \<Rightarrow> string list" where
  "nodeIdsOf (TableNode t) = [elk_id t]"
| "nodeIdsOf (GroupNode gid cs) = gid # map elk_id cs"

definition tableIds :: "ElkGraph \<Rightarrow> string list" where
  "tableIds graph = concat (map tableIdsOf (graph_children graph))"

definition nodeIds :: "ElkGraph \<Rightarrow> string list" where
  "nodeIds graph = concat (map nodeIdsOf (graph_children graph))"

text \<open>The ids of the compound nodes alone.\<close>

fun groupIdsOf :: "ElkNode \<Rightarrow> string list" where
  "groupIdsOf (TableNode t) = []"
| "groupIdsOf (GroupNode gid cs) = [gid]"

text \<open>All member keys of all groups, in order.\<close>

definition memberKeys :: "ParsedSchema \<Rightarrow> string list" where
  "memberKeys schema = concat (map (\<lambda>g. map memberKey (grp_tables g)) (tableGroups schema))"

text \<open>"Each table appears at most once across all group member lists".\<close>

definition membersOnce :: "ParsedSchema \<Rightarrow> bool" where
  "membersOnce schema =
     list_all (\<lambda>t. count_list (memberKeys schema) (tableNodeId t) \<le> 1) (tables schema)"

text \<open>
  The node-uniqueness claim as worded: under \<open>membersOnce\<close> alone, every table is once
  among the table nodes and no node id occurs twice.
\<close>

definition claimedUniqueNodes :: "ParsedSchema \<Rightarrow> LayoutDirection \<Rightarrow> bool" where
  "claimedUniqueNodes schema direction =
     (membersOnce schema \<longrightarrow>
        list_all (\<lambda>t. count_list (tableIds (buildGraph schema direction)) (tableNodeId t) = 1)
                 (tables schema)
        \<and> distinct (nodeIds (buildGraph schema direction)))"

text \<open>A run of pointer moves on the document, given by the pointer positions.\<close>

definition pointerMoves :: "(real \<times> real) list \<Rightarrow> event list" where
  "pointerMoves ms = map (\<lambda>(x, y). DocMouseMove x y) ms"

text \<open>
  A displacement \<open>start\<close> plus the pointer's travel from \<open>(sx, sy)\<close> to \<open>(cx, cy)\<close>, in
  diagram units at zoom scale \<open>k\<close>.
\<close>

definition dragged :: "offset \<Rightarrow> real \<times> real \<Rightarrow> real \<times> real \<Rightarrow> real \<Rightarrow> offset" where
  "dragged start from to k =
     \<lparr>dx = dx start + (fst to - fst from) / k, dy = dy start + (snd to - snd from) / k\<rparr>"

section \<open>Example data\<close>

text \<open>
  A reference from table \<open>public.A\<close> to table \<open>public.B\<close>, an edge for it with a
  four-point orthogonal polyline, one with a straight two-point polyline, and some
  displacement maps.
\<close>

definition exRef :: SchemaRef where
  "exRef = \<lparr>ref_name = [], fromSchema = ''public'', fromTable = ''A'', fromColumns = [''x''],
            fromRelation = ''*'', toSchema = ''public'', toTable = ''B'', toColumns = [''y''],
            toRelation = ''1'', onDelete = None, onUpdate = None\<rparr>"

definition exEdge :: LayoutEdge where
  "exEdge = \<lparr>edge_id = ''e0'', ref = Some exRef,
             points = [\<lparr>px = 200, py = 50\<rparr>, \<lparr>px = 260, py = 50\<rparr>,
                       \<lparr>px = 260, py = 120\<rparr>, \<lparr>px = 320, py = 120\<rparr>]\<rparr>"


definition exDragA :: offsets where
  "exDragA = [''public.A'' \<mapsto> \<lparr>dx = 50, dy = 0\<rparr>]"

definition exDragBoth :: offsets where
  "exDragBoth = [''public.A'' \<mapsto> \<lparr>dx = 50, dy = 20\<rparr>, ''public.B'' \<mapsto> \<lparr>dx = -10, dy = 35\<rparr>]"

definition exRest :: offsets where
  "exRest = [''public.B'' \<mapsto> \<lparr>dx = 0, dy = 0\<rparr>, ''public.C'' \<mapsto> \<lparr>dx = 7, dy = 9\<rparr>]"

definition exNodeB :: LayoutNode where
  "exNodeB = \<lparr>node_id = ''public.B'', node_x = 320, node_y = 100, node_width = 200,
              node_height = 64, node_table = None\<rparr>"

text \<open>
  An edge that leaves A downwards and then turns to the right, and a straight vertical
  edge; a displacement of B alone.
\<close>

definition exBend :: LayoutEdge where
  "exBend = \<lparr>edge_id = ''e2'', ref = Some exRef,
             points = [\<lparr>px = 0, py = 0\<rparr>, \<lparr>px = 0, py = 10\<rparr>, \<lparr>px = 5, py = 10\<rparr>]\<rparr>"




definition exColumn :: "string \<Rightarrow> string \<Rightarrow> SchemaColumn" where
  "exColumn n t = \<lparr>col_name = n, col_type = t, col_pk = False, col_unique = False,
                   col_notNull = False, col_increment = False, col_defaultValue = None,
                   col_note = None\<rparr>"

definition exTable :: "string \<Rightarrow> SchemaColumn list \<Rightarrow> SchemaTable" where
  "exTable n cols = \<lparr>tbl_name = n, tbl_schema = ''public'', tbl_columns = cols,
                     tbl_note = None, tbl_headerColor = None\<rparr>"

text \<open>A table whose name (30 characters) is longer than its only column row (8).\<close>

definition exWide :: SchemaTable where
  "exWide = exTable ''customer_order_line_item_audit'' [exColumn ''id'' ''int'']"

text \<open>
  A schema with tables \<open>public.A\<close> (in group \<open>g\<close>) and \<open>public.B\<close>, a reference from A to B
  and a reference from A to a table \<open>public.Z\<close> that does not exist; and a solver result for
  it: the group's node at (30, 30) holding A at (20, 52), B at (400, 60), one routed edge.
\<close>

definition exSchema :: ParsedSchema where
  "exSchema =
     \<lparr>tables = [exTable ''A'' [exColumn ''x'' ''int''], exTable ''B'' [exColumn ''y'' ''int'']],
      refs = [exRef, exRef\<lparr>toTable := ''Z''\<rparr>],
      enums = [],
      tableGroups = [\<lparr>grp_name = ''g'',
                      grp_tables = [\<lparr>schemaName = ''public'', tableName = ''A''\<rparr>],
                      grp_color = None, grp_note = None\<rparr>]\<rparr>"

definition exResult :: ElkResult where
  "exResult =
     \<lparr>result_children = Some
        [\<lparr>child_id = ''group:g'', child_x = 30, child_y = 30, child_width = 240,
          child_height = 136,
          child_children = Some [\<lparr>leaf_id = ''public.A'', leaf_x = 20, leaf_y = 52,
                                  leaf_width = 200, leaf_height = 64\<rparr>]\<rparr>,
         \<lparr>child_id = ''public.B'', child_x = 400, child_y = 60, child_width = 200,
          child_height = 64, child_children = None\<rparr>],
      result_edges = Some
        [\<lparr>resedge_id = ''e0'',
          sections = Some [\<lparr>startPoint = \<lparr>px = 250, py = 132\<rparr>,
                            bendPoints = Some [\<lparr>px = 330, py = 132\<rparr>, \<lparr>px = 330, py = 110\<rparr>],
                            endPoint = \<lparr>px = 400, py = 110\<rparr>\<rparr>]\<rparr>],
      result_width = Some 630, result_height = Some 196\<rparr>"

definition exSolver :: "ElkGraph \<Rightarrow> solver_error + ElkResult" where
  "exSolver graph = Inr exResult"

text \<open>
  A component showing a layout with the two tables and the four-point edge, nothing
  dragged yet; a drag of node B by the pointer from (10, 10) to (30, 15); and a store
  holding the polyline of the edge at address 0.
\<close>

definition exNodeA :: LayoutNode where
  "exNodeA = \<lparr>node_id = ''public.A'', node_x = 0, node_y = 18, node_width = 200,
              node_height = 64, node_table = None\<rparr>"

definition exComponent :: component where
  "exComponent =
     \<lparr>layout = Some \<lparr>obj_ident = 1,
                      obj_value = \<lparr>nodes = [exNodeA, exNodeB], edges = [exEdge], groups = [],
                                   width = 550, height = 200\<rparr>\<rparr>,
      prevLayout = Some \<lparr>obj_ident = 1,
                      obj_value = \<lparr>nodes = [exNodeA, exNodeB], edges = [exEdge], groups = [],
                                   width = 550, height = 200\<rparr>\<rparr>,
      nodeOffsets = Map.empty,
      draggingNodeId = None,
      listeners = []\<rparr>"

definition exDrag :: "event list" where
  "exDrag = [NodeMouseDown 0 10 10 1 exNodeB, DocMouseMove 20 12, DocMouseMove 30 15, DocMouseUp]"

definition exStore :: store where
  "exStore = [points exEdge]"

definition exEdgeObj :: EdgeObj where
  "exEdgeObj = \<lparr>eo_id = ''e0'', eo_ref = Some exRef, eo_points = 0\<rparr>"

text \<open>The layout object of a later layout run: same contents, another object.\<close>

definition exRelayout :: layout_obj where
  "exRelayout =
     \<lparr>obj_ident = 2,
      obj_value = \<lparr>nodes = [exNodeA, exNodeB], edges = [exEdge], groups = [],
                   width = 550, height = 200\<rparr>\<rparr>"

text \<open>
  Two schemas on which node ids collide: one with two groups of the same name, each
  holding one table, and one with an ungrouped table \<open>x\<close> of schema \<open>group:g\<close> beside a
  group named \<open>g.x\<close>.
\<close>

definition exTwinGroups :: ParsedSchema where
  "exTwinGroups =
     \<lparr>tables = [exTable ''A'' [exColumn ''x'' ''int''], exTable ''B'' [exColumn ''y'' ''int'']],
      refs = [],
      enums = [],
      tableGroups = [\<lparr>grp_name = ''g'',
                      grp_tables = [\<lparr>schemaName = ''public'', tableName = ''A''\<rparr>],
                      grp_color = None, grp_note = None\<rparr>,
                     \<lparr>grp_name = ''g'',
                      grp_tables = [\<lparr>schemaName = ''public'', tableName = ''B''\<rparr>],
                      grp_color = None, grp_note = None\<rparr>]\<rparr>"

definition exGroupLikeTable :: ParsedSchema where
  "exGroupLikeTable =
     \<lparr>tables = [exTable ''A'' [exColumn ''x'' ''int''],
                \<lparr>tbl_name = ''x'', tbl_schema = ''group:g'', tbl_columns = [],
                 tbl_note = None, tbl_headerColor = None\<rparr>],
      refs = [],
      enums = [],
      tableGroups = [\<lparr>grp_name = ''g.x'',
                      grp_tables = [\<lparr>schemaName = ''public'', tableName = ''A''\<rparr>],
                      grp_color = None, grp_note = None\<rparr>]\<rparr>"

text \<open>
  A schema whose only reference joins two existing tables but names a column \<open>q\<close> that
  table A does not have; and a solver that, as the layout library does with an invalid
  graph, rejects a graph in which an edge names a port that no node declares, and
  otherwise returns the submitted edges unrouted, in order.
\<close>

definition exMissingColumn :: ParsedSchema where
  "exMissingColumn =
     \<lparr>tables = [exTable ''A'' [exColumn ''x'' ''int''], exTable ''B'' [exColumn ''y'' ''int'']],
      refs = [exRef\<lparr>fromColumns := [''q'']\<rparr>],
      enums = [],
      tableGroups = []\<rparr>"

fun portsOf :: "ElkNode \<Rightarrow> string list" where
  "portsOf (TableNode t) = elk_ports t"
| "portsOf (GroupNode gid cs) = concat (map elk_ports cs)"

definition exStrictSolver :: "ElkGraph \<Rightarrow> solver_error + ElkResult" where
  "exStrictSolver graph =
     (if list_all (\<lambda>e. list_all (\<lambda>p. p \<in> set (concat (map portsOf (graph_children graph))))
                                 (sources e @ targets e))
                  (graph_edges graph)
      then Inr \<lparr>result_children = Some [],
                result_edges = Some (map (\<lambda>e. \<lparr>resedge_id = elkedge_id e, sections = None\<rparr>)
                                         (graph_edges graph)),
                result_width = None, result_height = None\<rparr>
      else Inl (SolverError ''Referenced shape does not exist''))"

text \<open>
  A solver result for the schema with the table \<open>group:g.x\<close>: the compound node of group
  \<open>g.x\<close> holding A, and the node of the table \<open>group:g.x\<close>.
\<close>

definition exCollisionResult :: ElkResult where
  "exCollisionResult =
     \<lparr>result_children = Some
        [\<lparr>child_id = ''group:g.x'', child_x = 30, child_y = 30, child_width = 240,
          child_height = 136,
          child_children = Some [\<lparr>leaf_id = ''public.A'', leaf_x = 20, leaf_y = 52,
                                  leaf_width = 200, leaf_height = 64\<rparr>]\<rparr>,
         \<lparr>child_id = ''group:g.x'', child_x = 400, child_y = 60, child_width = 200,
          child_height = 36, child_children = None\<rparr>],
      result_edges = Some [],
      result_width = Some 630, result_height = Some 196\<rparr>"

definition exCollisionSolver :: "ElkGraph \<Rightarrow> solver_error + ElkResult" where
  "exCollisionSolver graph = Inr exCollisionResult"

section \<open>Proofs\<close>

subsection \<open>Propagation arrays\<close>

lemma fwd_nonempty: "fwd off hs = off # tl (fwd off hs)"
  by (cases hs) simp_all

lemma bwd_nonempty: "bwd off hs \<noteq> []"
  by (induction hs) (simp_all split: list.splits)

lemma bwd_cons: "bwd off (h # hs) = carry h (hd (bwd off hs)) # bwd off hs"
  using bwd_nonempty [of off hs] by (cases "bwd off hs") simp_all

declare bwd.simps(2) [simp del]

declare bwd_cons [simp]

lemma length_segH: "length (segH pts) = length pts - 1"
  by (induction pts rule: segH.induct) simp_all

lemma length_fwd: "length (fwd off hs) = Suc (length hs)"
  by (induction hs arbitrary: off) simp_all

lemma length_bwd: "length (bwd off hs) = Suc (length hs)"
  by (induction hs) simp_all

lemma combine_head:
  "combine (q # rest) (fwd g hs) (bwd t hs) =
     \<lparr>px = px q + dx g + dx (hd (bwd t hs)), py = py q + dy g + dy (hd (bwd t hs))\<rparr>
       # combine rest (tl (fwd g hs)) (tl (bwd t hs))"
proof -
  obtain b bs where b: "bwd t hs = b # bs"
    using bwd_nonempty [of t hs] by (cases "bwd t hs") auto
  obtain fs where f: "fwd g hs = g # fs"
    using fwd_nonempty [of g hs] by metis
  show ?thesis by (simp add: b f)
qed

lemma axisAligned_combine:
  "axisAligned pts \<Longrightarrow> axisAligned (combine pts (fwd f (segH pts)) (bwd t (segH pts)))"
proof (induction pts arbitrary: f rule: segH.induct)
  case (1 p q rest)
  define h where "h = (\<bar>px q - px p\<bar> \<ge> \<bar>py q - py p\<bar>)"
  define hs where "hs = segH (q # rest)"
  define g where "g = carry h f"
  define b where "b = hd (bwd t hs)"
  define T where "T = combine rest (tl (fwd g hs)) (tl (bwd t hs))"
  define P0 where "P0 = \<lparr>px = px p + dx f + dx (carry h b), py = py p + dy f + dy (carry h b)\<rparr>"
  define P1 where "P1 = \<lparr>px = px q + dx g + dx b, py = py q + dy g + dy b\<rparr>"
  from "1.prems" have al: "px p = px q \<or> py p = py q" and tl: "axisAligned (q # rest)"
    by simp_all
  have tail: "combine (q # rest) (fwd g hs) (bwd t hs) = P1 # T"
    unfolding P1_def T_def b_def by (rule combine_head)
  have ih: "axisAligned (P1 # T)"
    using "1.IH" [OF tl, of g] tail by (simp add: hs_def)
  have whole: "combine (p # q # rest) (fwd f (segH (p # q # rest))) (bwd t (segH (p # q # rest)))
      = P0 # P1 # T"
    using tail by (simp add: P0_def h_def hs_def g_def b_def)
  have pair: "px P0 = px P1 \<or> py P0 = py P1"
  proof (cases h)
    case True
    with al have "py p = py q" by (auto simp: h_def)
    with True show ?thesis by (simp add: P0_def P1_def g_def carry_def)
  next
    case False
    with al have "px p = px q" by (auto simp: h_def)
    with False show ?thesis by (simp add: P0_def P1_def g_def carry_def)
  qed
  show ?case unfolding whole using pair ih by simp
next
  case (2 p)
  then show ?case by simp
next
  case 3
  then show ?case by simp
qed

subsection \<open>Orthogonality is preserved\<close>

text \<open>
  Claim C1. Whatever the displacement map, the adjusted polyline of an edge whose base
  polyline has every consecutive point pair axis-aligned again has every consecutive point
  pair axis-aligned. The edge carries its reference, as its declared type requires; the
  three cases are the empty or one-point polyline, the two-point polyline and the general
  one.
\<close>

theorem adjustedPoints_axisAligned:
  assumes "ref e = Some r" and "axisAligned (points e)"
  shows "\<exists>ps. adjustedPoints offs e = Inr ps \<and> axisAligned ps"
proof -
  let ?pts = "points e"
  consider (short) "length ?pts \<le> 1" | (two) "length ?pts = 2" | (gen) "length ?pts \<ge> 3"
    by linarith
  then show ?thesis
  proof cases
    case short
    then have "axisAligned (map (\<lambda>p. shift p off) ?pts)" for off
      by (cases ?pts) simp_all
    with short assms show ?thesis
      by (simp add: adjustedPoints_def edgeNodeIds_def Let_def)
  next
    case two
    then show ?thesis using assms
      by (simp add: adjustedPoints_def edgeNodeIds_def Let_def)
  next
    case gen
    then show ?thesis using assms axisAligned_combine [OF assms(2)]
      by (simp add: adjustedPoints_def edgeNodeIds_def Let_def)
  qed
qed

theorem adjustedPoints_axisAligned_witness:
  "ref exEdge = Some exRef \<and> axisAligned (points exEdge)
   \<and> (\<exists>ps. adjustedPoints exDragBoth exEdge = Inr ps \<and> axisAligned ps)"
proof -
  have r: "ref exEdge = Some exRef" by (simp add: exEdge_def)
  have a: "axisAligned (points exEdge)" by (simp add: exEdge_def)
  show ?thesis using r a adjustedPoints_axisAligned [OF r a, of exDragBoth] by simp
qed

subsection \<open>Undisplaced endpoints\<close>

lemma edgeNodeIds_Some:
  "ref e = Some r \<Longrightarrow> edgeNodeIds e = Inr (fromKey r, toKey r)"
  by (simp add: edgeNodeIds_def fromKey_def toKey_def)

lemma offsetOr0_undisplaced:
  "undisplaced offs k \<Longrightarrow> offsetOr0 offs k = \<lparr>dx = 0, dy = 0\<rparr>"
  by (auto simp: undisplaced_def offsetOr0_def)

lemma adjustedPoints_base:
  "ref e = Some r \<Longrightarrow> undisplaced offs (fromKey r) \<Longrightarrow> undisplaced offs (toKey r)
     \<Longrightarrow> adjustedPoints offs e = Inr (points e)"
  by (simp add: adjustedPoints_def edgeNodeIds_Some offsetOr0_undisplaced)

lemma offsetOr0_zero_entry:
  "offsetOr0 (offs(k \<mapsto> \<lparr>dx = 0, dy = 0\<rparr>)) j = offsetOr0 (offs(k := None)) j"
  by (simp add: offsetOr0_def)

lemma adjustedPoints_zero_entry:
  "adjustedPoints (offs(k \<mapsto> \<lparr>dx = 0, dy = 0\<rparr>)) e = adjustedPoints (offs(k := None)) e"
  unfolding adjustedPoints_def offsetOr0_zero_entry ..

text \<open>
  Claim C2. When neither endpoint of an edge has a nonzero displacement (entry absent or
  (0,0)), \<open>adjustedPoints\<close> returns the base polyline itself. Hence an entry (0,0) for a
  node gives every polyline the entry's absence gives, so setting (0,0) on a node without
  displacement changes no polyline; and once a node's entry is cleared, every edge whose
  endpoints are that node or undisplaced nodes is back at its base polyline.
\<close>

theorem adjustedPoints_unchanged:
  assumes "ref e = Some r"
  shows "(undisplaced offs (fromKey r) \<and> undisplaced offs (toKey r)
            \<longrightarrow> adjustedPoints offs e = Inr (points e))
       \<and> adjustedPoints (offs(k \<mapsto> \<lparr>dx = 0, dy = 0\<rparr>)) e = adjustedPoints (offs(k := None)) e
       \<and> (offs k = None
            \<longrightarrow> adjustedPoints (offs(k \<mapsto> \<lparr>dx = 0, dy = 0\<rparr>)) e = adjustedPoints offs e)
       \<and> ((k = fromKey r \<or> undisplaced offs (fromKey r)) \<and> (k = toKey r \<or> undisplaced offs (toKey r))
            \<longrightarrow> adjustedPoints (offs(k := None)) e = Inr (points e))"
proof (intro conjI impI)
  assume "undisplaced offs (fromKey r) \<and> undisplaced offs (toKey r)"
  then show "adjustedPoints offs e = Inr (points e)"
    using assms by (simp add: adjustedPoints_base)
next
  show "adjustedPoints (offs(k \<mapsto> \<lparr>dx = 0, dy = 0\<rparr>)) e = adjustedPoints (offs(k := None)) e"
    by (rule adjustedPoints_zero_entry)
next
  assume "offs k = None"
  then have "offs(k := None) = offs" by (simp add: fun_upd_idem_iff)
  then show "adjustedPoints (offs(k \<mapsto> \<lparr>dx = 0, dy = 0\<rparr>)) e = adjustedPoints offs e"
    by (simp add: adjustedPoints_zero_entry)
next
  assume h: "(k = fromKey r \<or> undisplaced offs (fromKey r)) \<and> (k = toKey r \<or> undisplaced offs (toKey r))"
  have "undisplaced (offs(k := None)) (fromKey r)" "undisplaced (offs(k := None)) (toKey r)"
    using h by (auto simp: undisplaced_def)
  then show "adjustedPoints (offs(k := None)) e = Inr (points e)"
    using assms by (simp add: adjustedPoints_base)
qed

theorem adjustedPoints_unchanged_witness:
  "ref exEdge = Some exRef
   \<and> undisplaced exRest (fromKey exRef) \<and> undisplaced exRest (toKey exRef)
   \<and> exRest ''public.A'' = None \<and> ''public.A'' = fromKey exRef
   \<and> adjustedPoints exRest exEdge = Inr (points exEdge)
   \<and> adjustedPoints (exRest(''public.A'' \<mapsto> \<lparr>dx = 0, dy = 0\<rparr>)) exEdge = adjustedPoints exRest exEdge
   \<and> adjustedPoints (exRest(''public.A'' := None)) exEdge = Inr (points exEdge)"
proof -
  have r: "ref exEdge = Some exRef" by (simp add: exEdge_def)
  have u: "undisplaced exRest (fromKey exRef)" "undisplaced exRest (toKey exRef)"
    by (simp_all add: undisplaced_def exRest_def fromKey_def toKey_def exRef_def)
  have n: "exRest ''public.A'' = None" by (simp add: exRest_def)
  have k: "''public.A'' = fromKey exRef" by (simp add: fromKey_def exRef_def)
  note T = adjustedPoints_unchanged [OF r, of exRest "''public.A''"]
  have 1: "adjustedPoints exRest exEdge = Inr (points exEdge)"
    using T u by blast
  have 2: "adjustedPoints (exRest(''public.A'' \<mapsto> \<lparr>dx = 0, dy = 0\<rparr>)) exEdge = adjustedPoints exRest exEdge"
    using T n by blast
  have 3: "adjustedPoints (exRest(''public.A'' := None)) exEdge = Inr (points exEdge)"
    using T u k by blast
  show ?thesis using r u n k 1 2 3 by blast
qed

subsection \<open>Dragging the source node\<close>

lemma length_combine:
  "length fs = length pts \<Longrightarrow> length bs = length pts \<Longrightarrow> length (combine pts fs bs) = length pts"
  by (induction pts fs bs rule: combine.induct) simp_all

lemma combine_nth:
  "length fs = length pts \<Longrightarrow> length bs = length pts \<Longrightarrow> i < length pts \<Longrightarrow>
     combine pts fs bs ! i =
       \<lparr>px = px (pts ! i) + dx (fs ! i) + dx (bs ! i), py = py (pts ! i) + dy (fs ! i) + dy (bs ! i)\<rparr>"
proof (induction pts fs bs arbitrary: i rule: combine.induct)
  case (1 pt pts f fs b bs)
  then show ?case by (cases i) simp_all
qed simp_all

lemma carry_zero: "carry h \<lparr>dx = 0, dy = 0\<rparr> = \<lparr>dx = 0, dy = 0\<rparr>"
  by (simp add: carry_def)

lemma bwd_zero: "bwd \<lparr>dx = 0, dy = 0\<rparr> hs = replicate (Suc (length hs)) \<lparr>dx = 0, dy = 0\<rparr>"
  by (induction hs) (simp_all add: carry_zero)

lemma bwd_zero_nth:
  "i \<le> length hs \<Longrightarrow> bwd \<lparr>dx = 0, dy = 0\<rparr> hs ! i = \<lparr>dx = 0, dy = 0\<rparr>"
  unfolding bwd_zero by (simp del: replicate_Suc)

lemma fwd_nth:
  "i \<le> length hs \<Longrightarrow>
     fwd off hs ! i = \<lparr>dx = (if True \<in> set (take i hs) then 0 else dx off),
                       dy = (if False \<in> set (take i hs) then 0 else dy off)\<rparr>"
proof (induction hs arbitrary: off i)
  case Nil
  then show ?case by simp
next
  case (Cons h hs)
  show ?case
  proof (cases i)
    case 0
    then show ?thesis by simp
  next
    case (Suc j)
    with Cons.prems have "j \<le> length hs" by simp
    from Cons.IH [OF this, of "carry h off"] Suc show ?thesis
      by (cases h) (auto simp: carry_def)
  qed
qed

lemma drag_source_carried:
  assumes "ref e = Some r"
    and "offs (fromKey r) = Some d"
    and "undisplaced offs (toKey r)"
  shows "\<exists>ps. adjustedPoints offs e = Inr ps
     \<and> (points e \<noteq> [] \<longrightarrow> hd ps = shift (hd (points e)) d)
     \<and> (3 \<le> length (points e) \<longrightarrow>
          length ps = length (points e)
          \<and> (\<forall>i. 0 < i \<and> i < length (points e) - 1 \<longrightarrow>
                 ps ! i = shift (points e ! i)
                   \<lparr>dx = (if True \<in> set (take i (segH (points e))) then 0 else dx d),
                    dy = (if False \<in> set (take i (segH (points e))) then 0 else dy d)\<rparr>))
     \<and> (node_id B = toKey r \<longrightarrow> nodeX offs B = node_x B \<and> nodeY offs B = node_y B)"
proof -
  let ?pts = "points e"
  have fo: "offsetOr0 offs (fromKey r) = d"
    using assms(2) by (simp add: offsetOr0_def)
  have to: "offsetOr0 offs (toKey r) = \<lparr>dx = 0, dy = 0\<rparr>"
    using assms(3) by (rule offsetOr0_undisplaced)
  have B: "node_id B = toKey r \<longrightarrow> nodeX offs B = node_x B \<and> nodeY offs B = node_y B"
    using assms(3) by (auto simp: nodeX_def nodeY_def undisplaced_def)
  have unfold: "adjustedPoints offs e =
      (if dx d = 0 \<and> dy d = 0 then Inr ?pts
       else if length ?pts \<le> 1 then Inr (map (\<lambda>p. shift p d) ?pts)
       else if length ?pts = 2 then
         (if \<bar>px (?pts ! 1) - px (?pts ! 0)\<bar> \<ge> \<bar>py (?pts ! 1) - py (?pts ! 0)\<bar>
          then Inr [shift (?pts ! 0) d,
                    \<lparr>px = (px (shift (?pts ! 0) d) + px (?pts ! 1)) / 2, py = py (shift (?pts ! 0) d)\<rparr>,
                    \<lparr>px = (px (shift (?pts ! 0) d) + px (?pts ! 1)) / 2, py = py (?pts ! 1)\<rparr>,
                    ?pts ! 1]
          else Inr [shift (?pts ! 0) d,
                    \<lparr>px = px (shift (?pts ! 0) d), py = (py (shift (?pts ! 0) d) + py (?pts ! 1)) / 2\<rparr>,
                    \<lparr>px = px (?pts ! 1), py = (py (shift (?pts ! 0) d) + py (?pts ! 1)) / 2\<rparr>,
                    ?pts ! 1])
       else Inr (combine ?pts (fwd d (segH ?pts)) (bwd \<lparr>dx = 0, dy = 0\<rparr> (segH ?pts))))"
    using assms(1) by (simp add: adjustedPoints_def edgeNodeIds_Some fo to Let_def shift_def)
  have lens: "length (fwd d (segH ?pts)) = length ?pts"
             "length (bwd \<lparr>dx = 0, dy = 0\<rparr> (segH ?pts)) = length ?pts" if "?pts \<noteq> []"
    using that by (simp_all add: length_fwd length_bwd length_segH)
  have zero_shift: "shift p d = p" if "dx d = 0 \<and> dy d = 0" for p
    using that by (simp add: shift_def)
  consider (zero) "dx d = 0 \<and> dy d = 0"
    | (short) "\<not> (dx d = 0 \<and> dy d = 0)" "length ?pts \<le> 1"
    | (two) "\<not> (dx d = 0 \<and> dy d = 0)" "length ?pts = 2"
    | (gen) "\<not> (dx d = 0 \<and> dy d = 0)" "3 \<le> length ?pts"
    by linarith
  then show ?thesis
  proof cases
    case zero
    then have "adjustedPoints offs e = Inr ?pts" by (simp add: unfold)
    with zero B show ?thesis by (simp add: zero_shift shift_def)
  next
    case short
    then have "adjustedPoints offs e = Inr (map (\<lambda>p. shift p d) ?pts)" unfolding unfold by auto
    with short B show ?thesis by (cases ?pts) simp_all
  next
    case two
    then obtain a b where ab: "?pts = [a, b]"
      by (cases ?pts; cases "tl ?pts") auto
    with two B show ?thesis unfolding unfold by auto
  next
    case gen
    then have ne: "?pts \<noteq> []" by auto
    let ?ps = "combine ?pts (fwd d (segH ?pts)) (bwd \<lparr>dx = 0, dy = 0\<rparr> (segH ?pts))"
    from gen have eq: "adjustedPoints offs e = Inr ?ps" unfolding unfold by auto
    have len: "length ?ps = length ?pts"
      using lens [OF ne] by (simp add: length_combine)
    have nth: "?ps ! i = shift (?pts ! i)
                   \<lparr>dx = (if True \<in> set (take i (segH ?pts)) then 0 else dx d),
                    dy = (if False \<in> set (take i (segH ?pts)) then 0 else dy d)\<rparr>"
      if "i < length ?pts" for i
    proof -
      from that have i: "i \<le> length (segH ?pts)" by (simp add: length_segH)
      have z: "bwd \<lparr>dx = 0, dy = 0\<rparr> (segH ?pts) ! i = \<lparr>dx = 0, dy = 0\<rparr>"
        using i by (rule bwd_zero_nth)
      show ?thesis
        using lens [OF ne] that by (simp add: combine_nth fwd_nth [OF i] z shift_def)
    qed
    have "?ps \<noteq> []" using ne len by (metis length_0_conv)
    then have "hd ?ps = ?ps ! 0" by (rule hd_conv_nth)
    also have "\<dots> = shift (?pts ! 0) d" using nth [of 0] ne by (simp add: shift_def)
    also have "\<dots> = shift (hd ?pts) d" using ne by (simp add: hd_conv_nth)
    finally have hd: "hd ?ps = shift (hd ?pts) d" .
    show ?thesis using eq len hd nth B by auto
  qed
qed

lemma segH_nth:
  "j < length pts - 1 \<Longrightarrow>
     segH pts ! j = (\<bar>py (pts ! Suc j) - py (pts ! j)\<bar> \<le> \<bar>px (pts ! Suc j) - px (pts ! j)\<bar>)"
proof (induction pts arbitrary: j rule: segH.induct)
  case (1 p q rest)
  then show ?case by (cases j) simp_all
qed simp_all

lemma in_take_iff:
  "i \<le> length hs \<Longrightarrow> (b \<in> set (take i hs)) = (\<exists>j<i. hs ! j = b)"
  by (auto simp: in_set_conv_nth)

lemma horizontal_before:
  assumes "i < length pts"
  shows "(True \<in> set (take i (segH pts)))
           = (\<exists>j<i. \<bar>py (pts ! Suc j) - py (pts ! j)\<bar> \<le> \<bar>px (pts ! Suc j) - px (pts ! j)\<bar>)"
proof -
  from assms have i: "i \<le> length (segH pts)" by (simp add: length_segH)
  have "segH pts ! j = (\<bar>py (pts ! Suc j) - py (pts ! j)\<bar> \<le> \<bar>px (pts ! Suc j) - px (pts ! j)\<bar>)"
    if "j < i" for j
    using that assms by (intro segH_nth) simp
  then show ?thesis unfolding in_take_iff [OF i] by auto
qed

lemma vertical_before:
  assumes "i < length pts"
  shows "(False \<in> set (take i (segH pts)))
           = (\<exists>j<i. \<bar>px (pts ! Suc j) - px (pts ! j)\<bar> < \<bar>py (pts ! Suc j) - py (pts ! j)\<bar>)"
proof -
  from assms have i: "i \<le> length (segH pts)" by (simp add: length_segH)
  have "segH pts ! j = (\<bar>py (pts ! Suc j) - py (pts ! j)\<bar> \<le> \<bar>px (pts ! Suc j) - px (pts ! j)\<bar>)"
    if "j < i" for j
    using that assms by (intro segH_nth) simp
  then show ?thesis unfolding in_take_iff [OF i] by (auto simp: not_le)
qed

text \<open>
  Claim C3. On an edge from node A to node B where only A carries a displacement \<open>d\<close>
  (the scenario has \<open>d = (50, 0)\<close>): the first point of the adjusted polyline is the base
  first point plus \<open>d\<close>. On a polyline of three or more points, interior point \<open>i\<close> moves
  horizontally by \<open>dx d\<close> unless one of the base segments before it is horizontal (its
  extent in x is at least its extent in y), and vertically by \<open>dy d\<close> unless one of them is
  vertical (its extent in y is the larger): a horizontal segment passes on only the
  vertical component, a vertical one only the horizontal component. The rendered position
  of B is its base position.
\<close>

theorem drag_source_only:
  assumes "ref e = Some r"
    and "offs (fromKey r) = Some d"
    and "undisplaced offs (toKey r)"
  shows "\<exists>ps. adjustedPoints offs e = Inr ps
     \<and> (points e \<noteq> [] \<longrightarrow>
          px (hd ps) = px (hd (points e)) + dx d \<and> py (hd ps) = py (hd (points e)) + dy d)
     \<and> (3 \<le> length (points e) \<longrightarrow>
          length ps = length (points e)
          \<and> (\<forall>i. 0 < i \<and> i < length (points e) - 1 \<longrightarrow>
                 px (ps ! i) = px (points e ! i)
                   + (if \<exists>j<i. \<bar>py (points e ! Suc j) - py (points e ! j)\<bar>
                                   \<le> \<bar>px (points e ! Suc j) - px (points e ! j)\<bar>
                      then 0 else dx d)
               \<and> py (ps ! i) = py (points e ! i)
                   + (if \<exists>j<i. \<bar>px (points e ! Suc j) - px (points e ! j)\<bar>
                                   < \<bar>py (points e ! Suc j) - py (points e ! j)\<bar>
                      then 0 else dy d)))
     \<and> (node_id B = toKey r \<longrightarrow> nodeX offs B = node_x B \<and> nodeY offs B = node_y B)"
proof -
  from drag_source_carried [OF assms, of B] obtain ps where
    ps: "adjustedPoints offs e = Inr ps"
    and h: "points e \<noteq> [] \<longrightarrow> hd ps = shift (hd (points e)) d"
    and i: "3 \<le> length (points e) \<longrightarrow>
          length ps = length (points e)
          \<and> (\<forall>i. 0 < i \<and> i < length (points e) - 1 \<longrightarrow>
                 ps ! i = shift (points e ! i)
                   \<lparr>dx = (if True \<in> set (take i (segH (points e))) then 0 else dx d),
                    dy = (if False \<in> set (take i (segH (points e))) then 0 else dy d)\<rparr>)"
    and n: "node_id B = toKey r \<longrightarrow> nodeX offs B = node_x B \<and> nodeY offs B = node_y B"
    by blast
  have first: "points e \<noteq> [] \<longrightarrow>
          px (hd ps) = px (hd (points e)) + dx d \<and> py (hd ps) = py (hd (points e)) + dy d"
    using h by (simp add: shift_def)
  have inner: "px (ps ! i) = px (points e ! i)
                   + (if \<exists>j<i. \<bar>py (points e ! Suc j) - py (points e ! j)\<bar>
                                   \<le> \<bar>px (points e ! Suc j) - px (points e ! j)\<bar>
                      then 0 else dx d)
               \<and> py (ps ! i) = py (points e ! i)
                   + (if \<exists>j<i. \<bar>px (points e ! Suc j) - px (points e ! j)\<bar>
                                   < \<bar>py (points e ! Suc j) - py (points e ! j)\<bar>
                      then 0 else dy d)"
    if "3 \<le> length (points e)" "0 < i" "i < length (points e) - 1" for i
  proof -
    from that have lt: "i < length (points e)" by simp
    from i that have "ps ! i = shift (points e ! i)
                   \<lparr>dx = (if True \<in> set (take i (segH (points e))) then 0 else dx d),
                    dy = (if False \<in> set (take i (segH (points e))) then 0 else dy d)\<rparr>"
      by blast
    then show ?thesis
      unfolding horizontal_before [OF lt] vertical_before [OF lt] by (simp add: shift_def)
  qed
  have len: "3 \<le> length (points e) \<longrightarrow> length ps = length (points e)"
    using i by blast
  from ps first len inner n show ?thesis by blast
qed

theorem drag_source_only_witness:
  "ref exBend = Some exRef
   \<and> exDragA (fromKey exRef) = Some \<lparr>dx = 50, dy = 0\<rparr>
   \<and> undisplaced exDragA (toKey exRef)
   \<and> node_id exNodeB = toKey exRef
   \<and> points exBend = [\<lparr>px = 0, py = 0\<rparr>, \<lparr>px = 0, py = 10\<rparr>, \<lparr>px = 5, py = 10\<rparr>]
   \<and> (\<exists>ps. adjustedPoints exDragA exBend = Inr ps
         \<and> px (hd ps) = 50 \<and> py (hd ps) = 0
         \<and> px (ps ! 1) = 50 \<and> py (ps ! 1) = 10
         \<and> nodeX exDragA exNodeB = 320 \<and> nodeY exDragA exNodeB = 100)
   \<and> ref exEdge = Some exRef
   \<and> points exEdge = [\<lparr>px = 200, py = 50\<rparr>, \<lparr>px = 260, py = 50\<rparr>,
                       \<lparr>px = 260, py = 120\<rparr>, \<lparr>px = 320, py = 120\<rparr>]
   \<and> (\<exists>ps. adjustedPoints exDragA exEdge = Inr ps
         \<and> px (hd ps) = 250 \<and> py (hd ps) = 50
         \<and> px (ps ! 1) = 260 \<and> py (ps ! 1) = 50
         \<and> px (ps ! 2) = 260 \<and> py (ps ! 2) = 120)"
proof -
  have r: "ref exBend = Some exRef" and r': "ref exEdge = Some exRef"
    by (simp_all add: exBend_def exEdge_def)
  have d: "exDragA (fromKey exRef) = Some \<lparr>dx = 50, dy = 0\<rparr>"
    by (simp add: exDragA_def fromKey_def exRef_def)
  have u: "undisplaced exDragA (toKey exRef)"
    by (simp add: undisplaced_def exDragA_def toKey_def exRef_def)
  have b: "node_id exNodeB = toKey exRef" by (simp add: exNodeB_def toKey_def exRef_def)
  have p: "points exBend = [\<lparr>px = 0, py = 0\<rparr>, \<lparr>px = 0, py = 10\<rparr>, \<lparr>px = 5, py = 10\<rparr>]"
    by (simp add: exBend_def)
  have p': "points exEdge = [\<lparr>px = 200, py = 50\<rparr>, \<lparr>px = 260, py = 50\<rparr>,
                       \<lparr>px = 260, py = 120\<rparr>, \<lparr>px = 320, py = 120\<rparr>]"
    by (simp add: exEdge_def)
  from drag_source_only [OF r d u, of exNodeB] obtain ps where
    ps: "adjustedPoints exDragA exBend = Inr ps"
    and psH: "points exBend \<noteq> [] \<longrightarrow>
          px (hd ps) = px (hd (points exBend)) + dx \<lparr>dx = 50, dy = 0\<rparr>
          \<and> py (hd ps) = py (hd (points exBend)) + dy \<lparr>dx = 50, dy = 0\<rparr>"
    and psI: "3 \<le> length (points exBend) \<longrightarrow>
          length ps = length (points exBend)
          \<and> (\<forall>i. 0 < i \<and> i < length (points exBend) - 1 \<longrightarrow>
                 px (ps ! i) = px (points exBend ! i)
                   + (if \<exists>j<i. \<bar>py (points exBend ! Suc j) - py (points exBend ! j)\<bar>
                                   \<le> \<bar>px (points exBend ! Suc j) - px (points exBend ! j)\<bar>
                      then 0 else dx \<lparr>dx = 50, dy = 0\<rparr>)
               \<and> py (ps ! i) = py (points exBend ! i)
                   + (if \<exists>j<i. \<bar>px (points exBend ! Suc j) - px (points exBend ! j)\<bar>
                                   < \<bar>py (points exBend ! Suc j) - py (points exBend ! j)\<bar>
                      then 0 else dy \<lparr>dx = 50, dy = 0\<rparr>))"
    and psN: "node_id exNodeB = toKey exRef \<longrightarrow>
          nodeX exDragA exNodeB = node_x exNodeB \<and> nodeY exDragA exNodeB = node_y exNodeB"
    by blast
  have 0: "px (hd ps) = 50 \<and> py (hd ps) = 0"
    using psH by (simp add: p)
  have "px (ps ! 1) = px (points exBend ! 1)
                   + (if \<exists>j<1. \<bar>py (points exBend ! Suc j) - py (points exBend ! j)\<bar>
                                   \<le> \<bar>px (points exBend ! Suc j) - px (points exBend ! j)\<bar>
                      then 0 else dx \<lparr>dx = 50, dy = 0\<rparr>)
               \<and> py (ps ! 1) = py (points exBend ! 1)
                   + (if \<exists>j<1. \<bar>px (points exBend ! Suc j) - px (points exBend ! j)\<bar>
                                   < \<bar>py (points exBend ! Suc j) - py (points exBend ! j)\<bar>
                      then 0 else dy \<lparr>dx = 50, dy = 0\<rparr>)"
    using psI by (simp add: p)
  then have 1: "px (ps ! 1) = 50 \<and> py (ps ! 1) = 10"
    by (simp add: p)
  have n: "nodeX exDragA exNodeB = 320 \<and> nodeY exDragA exNodeB = 100"
    using psN b by (simp add: exNodeB_def)
  have A: "\<exists>ps. adjustedPoints exDragA exBend = Inr ps
         \<and> px (hd ps) = 50 \<and> py (hd ps) = 0
         \<and> px (ps ! 1) = 50 \<and> py (ps ! 1) = 10
         \<and> nodeX exDragA exNodeB = 320 \<and> nodeY exDragA exNodeB = 100"
    using ps 0 1 n by (intro exI [of _ ps]) simp
  from drag_source_only [OF r' d u, of exNodeB] obtain qs where
    qs: "adjustedPoints exDragA exEdge = Inr qs"
    and qsH: "points exEdge \<noteq> [] \<longrightarrow>
          px (hd qs) = px (hd (points exEdge)) + dx \<lparr>dx = 50, dy = 0\<rparr>
          \<and> py (hd qs) = py (hd (points exEdge)) + dy \<lparr>dx = 50, dy = 0\<rparr>"
    and qsI: "3 \<le> length (points exEdge) \<longrightarrow>
          length qs = length (points exEdge)
          \<and> (\<forall>i. 0 < i \<and> i < length (points exEdge) - 1 \<longrightarrow>
                 px (qs ! i) = px (points exEdge ! i)
                   + (if \<exists>j<i. \<bar>py (points exEdge ! Suc j) - py (points exEdge ! j)\<bar>
                                   \<le> \<bar>px (points exEdge ! Suc j) - px (points exEdge ! j)\<bar>
                      then 0 else dx \<lparr>dx = 50, dy = 0\<rparr>)
               \<and> py (qs ! i) = py (points exEdge ! i)
                   + (if \<exists>j<i. \<bar>px (points exEdge ! Suc j) - px (points exEdge ! j)\<bar>
                                   < \<bar>py (points exEdge ! Suc j) - py (points exEdge ! j)\<bar>
                      then 0 else dy \<lparr>dx = 50, dy = 0\<rparr>))"
    and qsN: "node_id exNodeB = toKey exRef \<longrightarrow>
          nodeX exDragA exNodeB = node_x exNodeB \<and> nodeY exDragA exNodeB = node_y exNodeB"
    by blast
  have q0: "px (hd qs) = 250 \<and> py (hd qs) = 50"
    using qsH by (simp add: p')
  have qi: "px (qs ! i) = px (points exEdge ! i)
                   + (if \<exists>j<i. \<bar>py (points exEdge ! Suc j) - py (points exEdge ! j)\<bar>
                                   \<le> \<bar>px (points exEdge ! Suc j) - px (points exEdge ! j)\<bar>
                      then 0 else dx \<lparr>dx = 50, dy = 0\<rparr>)
               \<and> py (qs ! i) = py (points exEdge ! i)
                   + (if \<exists>j<i. \<bar>px (points exEdge ! Suc j) - px (points exEdge ! j)\<bar>
                                   < \<bar>py (points exEdge ! Suc j) - py (points exEdge ! j)\<bar>
                      then 0 else dy \<lparr>dx = 50, dy = 0\<rparr>)"
    if "0 < i \<and> i < 3" for i
    using qsI that by (simp add: p')
  have h1: "\<exists>j<1. \<bar>py (points exEdge ! Suc j) - py (points exEdge ! j)\<bar>
                                   \<le> \<bar>px (points exEdge ! Suc j) - px (points exEdge ! j)\<bar>"
    by (simp add: p')
  have h2: "\<exists>j<2. \<bar>py (points exEdge ! Suc j) - py (points exEdge ! j)\<bar>
                                   \<le> \<bar>px (points exEdge ! Suc j) - px (points exEdge ! j)\<bar>"
    by (rule exI [of _ 0]) (simp add: p')
  have q1: "px (qs ! 1) = 260 \<and> py (qs ! 1) = 50"
    using qi [of 1] h1 by (simp add: p')
  have q2: "px (qs ! 2) = 260 \<and> py (qs ! 2) = 120"
    using qi [of 2] h2 by (simp add: p')
  have B: "\<exists>ps. adjustedPoints exDragA exEdge = Inr ps
         \<and> px (hd ps) = 250 \<and> py (hd ps) = 50
         \<and> px (ps ! 1) = 260 \<and> py (ps ! 1) = 50
         \<and> px (ps ! 2) = 260 \<and> py (ps ! 2) = 120"
    using qs q0 q1 q2 by (intro exI [of _ qs]) simp
  from r d u b p A r' p' B show ?thesis by (intro conjI)
qed

subsection \<open>The two-point polyline\<close>

lemma offsetOr0_hasDisplacement: "hasDisplacement offs k v \<Longrightarrow> offsetOr0 offs k = v"
  by (auto simp: hasDisplacement_def offsetOr0_def)



subsection \<open>Node width\<close>

lemma maxLenLoop_fold: "maxLenLoop cols m = fold max (map lineLen cols) m"
  by (induction cols arbitrary: m) (simp_all add: max_def not_less)

lemma maxLenLoop_Max:
  "maxLenLoop cols m = Max (insert m (set (map lineLen cols)))"
  using Max.set_eq_fold [of m "map lineLen cols"] by (simp add: maxLenLoop_fold)

text \<open>
  Claim C6, amended. The width is the larger of 200 and \<open>m * 8 + 2 * 24\<close>, clamped to 360,
  where \<open>m\<close> is the maximum over the length of the table's name and the text lengths of its
  column rows: the name counts too.
\<close>

theorem estimateTableWidth_eq:
  "estimateTableWidth t =
     min 360 (max 200 (Max (insert (length (tbl_name t)) (set (map lineLen (tbl_columns t)))) * 8
                        + 2 * 24))"
  by (simp add: estimateTableWidth_def maxLenLoop_Max TABLE_MAX_WIDTH_def TABLE_MIN_WIDTH_def
        CHAR_WIDTH_def TABLE_PADDING_X_def)

text \<open>
  Claim C6 as worded, with the maximum over the column rows alone, fails on a table whose
  name is longer than every column row: the code gives 288, the claim 200.
\<close>

theorem estimateTableWidth_counterexample:
  "estimateTableWidth exWide = 288 \<and> claimedTableWidth exWide = 200
   \<and> estimateTableWidth exWide \<noteq> claimedTableWidth exWide"
  by (simp add: estimateTableWidth_def claimedTableWidth_def exWide_def exTable_def exColumn_def
        lineLen_def constraintStr_def TABLE_MAX_WIDTH_def TABLE_MIN_WIDTH_def CHAR_WIDTH_def
        TABLE_PADDING_X_def)

subsection \<open>Lookup maps\<close>

lemma mkTableMap_snoc: "mkTableMap (ts @ [u]) = (mkTableMap ts)(tableNodeId u \<mapsto> u)"
  by (simp add: mkTableMap_def tableNodeId_def)

lemma mkTableMap_find: "mkTableMap ts k = find (\<lambda>t. tableNodeId t = k) (rev ts)"
proof (induction ts rule: rev_induct)
  case Nil
  then show ?case by (simp add: mkTableMap_def)
next
  case (snoc u ts)
  then show ?case by (auto simp: mkTableMap_snoc)
qed

lemma mkGroupByElkId_snoc:
  "mkGroupByElkId (gs @ [g]) = (mkGroupByElkId gs)(groupNodeId g \<mapsto> g)"
  by (simp add: mkGroupByElkId_def)

lemma mkGroupByElkId_find: "mkGroupByElkId gs k = find (\<lambda>g. groupNodeId g = k) (rev gs)"
proof (induction gs rule: rev_induct)
  case Nil
  then show ?case by (simp add: mkGroupByElkId_def)
next
  case (snoc g gs)
  then show ?case by (auto simp: mkGroupByElkId_snoc)
qed

lemma mkTableMap_None: "(mkTableMap ts k = None) = (k \<notin> set (map tableNodeId ts))"
  unfolding mkTableMap_find by (auto simp: find_None_iff)

lemma groupWithNodeId_None:
  "(groupWithNodeId schema k = None) = (k \<notin> set (map groupNodeId (tableGroups schema)))"
  unfolding groupWithNodeId_def by (auto simp: find_None_iff)

subsection \<open>Extraction\<close>

lemma extractGrandchildren_eq:
  "extractGrandchildren (mkTableMap (tables schema)) c gcs ns
     = ns @ map (specMemberNode schema c) gcs"
  by (induction gcs arbitrary: ns)
     (simp_all add: specMemberNode_def tableWithId_def mkTableMap_find)

lemma extractChildren_eq:
  "extractChildren (mkGroupByElkId (tableGroups schema)) (mkTableMap (tables schema)) cs ns gs =
     (ns @ concat (map (specNodes schema) cs), gs @ concat (map (specGroups schema) cs))"
proof (induction cs arbitrary: ns gs)
  case Nil
  then show ?case by simp
next
  case (Cons c cs)
  have gb: "mkGroupByElkId (tableGroups schema) (child_id c) = groupWithNodeId schema (child_id c)"
    by (simp add: mkGroupByElkId_find groupWithNodeId_def)
  show ?case
  proof (cases "groupWithNodeId schema (child_id c)")
    case None
    then have "child_id c \<notin> set (map groupNodeId (tableGroups schema))"
      by (simp add: groupWithNodeId_None)
    then have n: "specNodes schema c = [specPlainNode schema c]"
      by (simp add: specNodes_def)
    have g: "specGroups schema c = []" by (simp add: specGroups_def None)
    have "extractChildren (mkGroupByElkId (tableGroups schema)) (mkTableMap (tables schema))
            (c # cs) ns gs
          = extractChildren (mkGroupByElkId (tableGroups schema)) (mkTableMap (tables schema))
              cs (ns @ [specPlainNode schema c]) gs"
      by (simp add: gb None specPlainNode_def tableWithId_def mkTableMap_find)
    then show ?thesis by (simp add: Cons.IH n g)
  next
    case (Some grp)
    then have "child_id c \<in> set (map groupNodeId (tableGroups schema))"
      using groupWithNodeId_None [of schema "child_id c"] by simp
    then have n: "specNodes schema c
                    = map (specMemberNode schema c) (orEmpty (child_children c))"
      by (simp add: specNodes_def)
    have g: "specGroups schema c =
        [\<lparr>group_id = child_id c, group_x = child_x c, group_y = child_y c,
          group_width = child_width c, group_height = child_height c,
          group_name = grp_name grp, group_color = grp_color grp\<rparr>]"
      by (simp add: specGroups_def Some)
    have "extractChildren (mkGroupByElkId (tableGroups schema)) (mkTableMap (tables schema))
            (c # cs) ns gs
          = extractChildren (mkGroupByElkId (tableGroups schema)) (mkTableMap (tables schema))
              cs (ns @ map (specMemberNode schema c) (orEmpty (child_children c)))
              (gs @ specGroups schema c)"
      by (simp add: gb Some extractGrandchildren_eq g)
    then show ?thesis by (simp add: Cons.IH n)
  qed
qed

lemma computeLayout_unfold:
  "computeLayout elkLayout schema direction =
     (case elkLayout (buildGraph schema direction) of
        Inl err \<Rightarrow> Inl err
      | Inr result \<Rightarrow>
          Inr \<lparr>nodes = concat (map (specNodes schema) (orEmpty (result_children result))),
               edges = layoutEdges (snd (buildEdges (mkTableMap (tables schema)) (refs schema) [] []))
                         (orEmpty (result_edges result)),
               groups = concat (map (specGroups schema) (orEmpty (result_children result))),
               width = (case result_width result of None \<Rightarrow> 0 | Some w \<Rightarrow> w),
               height = (case result_height result of None \<Rightarrow> 0 | Some h \<Rightarrow> h)\<rparr>)"
proof -
  obtain es sv where b: "buildEdges (mkTableMap (tables schema)) (refs schema) [] [] = (es, sv)"
    by (cases "buildEdges (mkTableMap (tables schema)) (refs schema) [] []")
  have g: "buildGraph schema direction =
      \<lparr>graph_direction = direction, graph_children = topLevelChildren schema direction,
       graph_edges = es\<rparr>"
    by (simp add: buildGraph_def b)
  show ?thesis
    by (cases "elkLayout (buildGraph schema direction)")
       (simp_all add: computeLayout_def b g extractChildren_eq Let_def)
qed

lemma recorded_from_spec:
  assumes "\<forall>t\<in>set (tables schema). \<forall>g\<in>set (tableGroups schema). tableNodeId t \<noteq> groupNodeId g"
    and "nodes L = concat (map (specNodes schema) (orEmpty (result_children result)))"
    and "groups L = concat (map (specGroups schema) (orEmpty (result_children result)))"
  shows "recordedAsClaimed schema result L"
  unfolding recordedAsClaimed_def list_all_iff
proof (rule ballI)
  fix c assume c: "c \<in> set (orEmpty (result_children result))"
  have box: "(child_id c, child_x c, child_y c, child_width c, child_height c)
                 \<in> set (map boxOf (groups L))"
    if gid: "child_id c \<in> set (map groupNodeId (tableGroups schema))"
  proof -
    from gid obtain grp where grp: "groupWithNodeId schema (child_id c) = Some grp"
      using groupWithNodeId_None [of schema "child_id c"] by auto
    let ?G = "\<lparr>group_id = child_id c, group_x = child_x c, group_y = child_y c,
          group_width = child_width c, group_height = child_height c,
          group_name = grp_name grp, group_color = grp_color grp\<rparr>"
    have "specGroups schema c = [?G]"
      by (simp add: specGroups_def grp)
    then have "?G \<in> set (specGroups schema c)" by simp
    with c have "?G \<in> set (groups L)"
      unfolding assms(3) by (simp only: set_concat set_map) blast
    then have "boxOf ?G \<in> boxOf ` set (groups L)" by (rule imageI)
    then show ?thesis by (simp add: boxOf_def)
  qed
  have members: "\<forall>gc\<in>set (orEmpty (child_children c)). specMemberNode schema c gc \<in> set (nodes L)"
    if gid: "child_id c \<in> set (map groupNodeId (tableGroups schema))"
  proof
    fix gc assume "gc \<in> set (orEmpty (child_children c))"
    then have "specMemberNode schema c gc \<in> set (specNodes schema c)"
      using gid by (simp add: specNodes_def)
    with c show "specMemberNode schema c gc \<in> set (nodes L)"
      unfolding assms(2) by (simp only: set_concat set_map) blast
  qed
  have plain: "specPlainNode schema c \<in> set (nodes L)"
    if "child_id c \<in> set (map tableNodeId (tables schema))"
  proof -
    from that assms(1) have "child_id c \<notin> set (map groupNodeId (tableGroups schema))"
      by (auto simp: image_iff) metis
    then have "specPlainNode schema c \<in> set (specNodes schema c)" by (simp add: specNodes_def)
    with c show ?thesis
      unfolding assms(2) by (simp only: set_concat set_map) blast
  qed
  from box members plain
  show "(child_id c \<in> set (map groupNodeId (tableGroups schema)) \<longrightarrow>
           (child_id c, child_x c, child_y c, child_width c, child_height c)
              \<in> set (map boxOf (groups L))
           \<and> (\<forall>gc\<in>set (orEmpty (child_children c)). specMemberNode schema c gc \<in> set (nodes L)))
      \<and> (child_id c \<in> set (map tableNodeId (tables schema)) \<longrightarrow>
           specPlainNode schema c \<in> set (nodes L))"
    by blast
qed

text \<open>
  Claim C7, amended. In a schema in which no table identity equals a group's node id,
  whenever the solver returns, the nodes and groups of the layout are those the
  specification describes, child by child and in order: a top-level child whose id is the
  node id of a group yields the group's bounding box and one node per grandchild, at the
  child's origin plus the grandchild's own position; any other top-level child, so every
  child that is a table of the schema, yields one node at its own coordinates.
\<close>

theorem computeLayout_extraction:
  assumes "\<forall>t\<in>set (tables schema). \<forall>g\<in>set (tableGroups schema). tableNodeId t \<noteq> groupNodeId g"
    and "elkLayout (buildGraph schema direction) = Inr result"
  shows "\<exists>L. computeLayout elkLayout schema direction = Inr L
     \<and> nodes L = concat (map (specNodes schema) (orEmpty (result_children result)))
     \<and> groups L = concat (map (specGroups schema) (orEmpty (result_children result)))
     \<and> recordedAsClaimed schema result L"
proof -
  let ?L = "\<lparr>nodes = concat (map (specNodes schema) (orEmpty (result_children result))),
             edges = layoutEdges (snd (buildEdges (mkTableMap (tables schema)) (refs schema) [] []))
                       (orEmpty (result_edges result)),
             groups = concat (map (specGroups schema) (orEmpty (result_children result))),
             width = (case result_width result of None \<Rightarrow> 0 | Some w \<Rightarrow> w),
             height = (case result_height result of None \<Rightarrow> 0 | Some h \<Rightarrow> h)\<rparr>"
  have L: "computeLayout elkLayout schema direction = Inr ?L"
    using assms(2) by (simp add: computeLayout_unfold)
  have "recordedAsClaimed schema result ?L"
    using assms(1) by (rule recorded_from_spec) simp_all
  with L show ?thesis by (intro exI [of _ ?L]) simp
qed

theorem computeLayout_extraction_witness:
  "list_all (\<lambda>t. list_all (\<lambda>g. tableNodeId t \<noteq> groupNodeId g) (tableGroups exSchema))
            (tables exSchema)
   \<and> exSolver (buildGraph exSchema RIGHT) = Inr exResult
   \<and> (\<exists>L. computeLayout exSolver exSchema RIGHT = Inr L
         \<and> map node_id (nodes L) = [''public.A'', ''public.B'']
         \<and> map node_x (nodes L) = [50, 400]
         \<and> map node_y (nodes L) = [82, 60]
         \<and> map boxOf (groups L) = [(''group:g'', 30, 30, 240, 136)])"
proof -
  have h: "\<forall>t\<in>set (tables exSchema). \<forall>g\<in>set (tableGroups exSchema).
             tableNodeId t \<noteq> groupNodeId g"
    by (simp add: exSchema_def exTable_def tableNodeId_def groupNodeId_def)
  then have h': "list_all (\<lambda>t. list_all (\<lambda>g. tableNodeId t \<noteq> groupNodeId g) (tableGroups exSchema))
            (tables exSchema)"
    by (simp add: list_all_iff)
  have s: "exSolver (buildGraph exSchema RIGHT) = Inr exResult" by (simp add: exSolver_def)
  from computeLayout_extraction [of exSchema exSolver RIGHT exResult, OF h s] obtain L where
    L: "computeLayout exSolver exSchema RIGHT = Inr L"
    and n: "nodes L = concat (map (specNodes exSchema) (orEmpty (result_children exResult)))"
    and g: "groups L = concat (map (specGroups exSchema) (orEmpty (result_children exResult)))"
    and r: "recordedAsClaimed exSchema exResult L"
    by blast
  have c: "orEmpty (result_children exResult) =
        [\<lparr>child_id = ''group:g'', child_x = 30, child_y = 30, child_width = 240,
          child_height = 136,
          child_children = Some [\<lparr>leaf_id = ''public.A'', leaf_x = 20, leaf_y = 52,
                                  leaf_width = 200, leaf_height = 64\<rparr>]\<rparr>,
         \<lparr>child_id = ''public.B'', child_x = 400, child_y = 60, child_width = 200,
          child_height = 64, child_children = None\<rparr>]"
    by (simp add: exResult_def orEmpty_def)
  have gs: "map groupNodeId (tableGroups exSchema) = [''group:g'']"
    by (simp add: exSchema_def groupNodeId_def)
  have 1: "map node_id (nodes L) = [''public.A'', ''public.B'']"
       "map node_x (nodes L) = [50, 400]" "map node_y (nodes L) = [82, 60]"
    unfolding n c
    by (simp_all add: specNodes_def gs specMemberNode_def specPlainNode_def orEmpty_def)
  have 2: "map boxOf (groups L) = [(''group:g'', 30, 30, 240, 136)]"
    unfolding g c
    by (simp add: specGroups_def groupWithNodeId_def exSchema_def groupNodeId_def boxOf_def)
  have "\<exists>L. computeLayout exSolver exSchema RIGHT = Inr L
         \<and> map node_id (nodes L) = [''public.A'', ''public.B'']
         \<and> map node_x (nodes L) = [50, 400]
         \<and> map node_y (nodes L) = [82, 60]
         \<and> map boxOf (groups L) = [(''group:g'', 30, 30, 240, 136)]"
    by (rule exI [of _ L]) (simp only: L 1 2 simp_thms)
  with h' s show ?thesis by (intro conjI)
qed

text \<open>
  Claim C7 as worded fails where a table's identity reads like a group's node id: the
  top-level node of the table \<open>group:g.x\<close> is taken for the compound node of group \<open>g.x\<close>,
  recorded as a second group and never as a node.
\<close>

theorem computeLayout_extraction_counterexample:
  "\<not> claimedExtraction exCollisionSolver exGroupLikeTable RIGHT"
proof -
  have c: "orEmpty (result_children exCollisionResult) =
        [\<lparr>child_id = ''group:g.x'', child_x = 30, child_y = 30, child_width = 240,
          child_height = 136,
          child_children = Some [\<lparr>leaf_id = ''public.A'', leaf_x = 20, leaf_y = 52,
                                  leaf_width = 200, leaf_height = 64\<rparr>]\<rparr>,
         \<lparr>child_id = ''group:g.x'', child_x = 400, child_y = 60, child_width = 200,
          child_height = 36, child_children = None\<rparr>]"
    by (simp add: exCollisionResult_def orEmpty_def)
  have gs: "map groupNodeId (tableGroups exGroupLikeTable) = [''group:g.x'']"
    by (simp add: exGroupLikeTable_def groupNodeId_def)
  have ts: "map tableNodeId (tables exGroupLikeTable) = [''public.A'', ''group:g.x'']"
    by (simp add: exGroupLikeTable_def exTable_def tableNodeId_def)
  have n: "map node_id (concat (map (specNodes exGroupLikeTable)
                                   (orEmpty (result_children exCollisionResult))))
             = [''public.A'']"
    unfolding c by (simp add: specNodes_def gs specMemberNode_def orEmpty_def)
  have "node_id (specPlainNode exGroupLikeTable
           \<lparr>child_id = ''group:g.x'', child_x = 400, child_y = 60, child_width = 200,
            child_height = 36, child_children = None\<rparr>)
          \<notin> set (map node_id (concat (map (specNodes exGroupLikeTable)
                                   (orEmpty (result_children exCollisionResult)))))"
    unfolding n by (simp add: specPlainNode_def)
  then have out: "specPlainNode exGroupLikeTable
           \<lparr>child_id = ''group:g.x'', child_x = 400, child_y = 60, child_width = 200,
            child_height = 36, child_children = None\<rparr>
         \<notin> set (concat (map (specNodes exGroupLikeTable)
                              (orEmpty (result_children exCollisionResult))))"
    unfolding set_map by (rule contrapos_nn) (rule imageI)
  show ?thesis
    using out
    by (simp add: claimedExtraction_def exCollisionSolver_def computeLayout_unfold
          recordedAsClaimed_def c gs ts)
qed

subsection \<open>References and edges\<close>

lemma resolves_tableMap:
  "resolves schema r =
     (mkTableMap (tables schema) (fromKey r) \<noteq> None
      \<and> mkTableMap (tables schema) (toKey r) \<noteq> None)"
  by (simp add: resolves_def mkTableMap_None)

lemma mkTableMap_Some:
  "mkTableMap ts k = Some t \<Longrightarrow> tableNodeId t = k \<and> t \<in> set ts"
proof (induction ts rule: rev_induct)
  case Nil
  then show ?case by (simp add: mkTableMap_def)
next
  case (snoc u ts)
  then show ?case by (auto simp: mkTableMap_snoc split: if_splits)
qed

lemma portId_right: "portId t col right = tableNodeId t @ ''.'' @ col @ ''.right''"
  by (simp add: portId_def)

lemma portId_left: "portId t col left = tableNodeId t @ ''.'' @ col @ ''.left''"
  by (simp add: portId_def)

lemma firstCol_anchor: "firstCol cols = anchorColumn cols"
  by (cases cols) (simp_all add: firstCol_def anchorColumn_def)

lemma buildEdges_Cons:
  "buildEdges tableMap (r # rs) es survivingRefs =
     (case tableMap (fromKey r) of
        None \<Rightarrow> buildEdges tableMap rs es survivingRefs
      | Some fromTbl \<Rightarrow>
          (case tableMap (toKey r) of
             None \<Rightarrow> buildEdges tableMap rs es survivingRefs
           | Some toTbl \<Rightarrow>
               buildEdges tableMap rs
                 (es @ [\<lparr>elkedge_id = ''e'' @ showNat (length es),
                         sources = [portId fromTbl (firstCol (fromColumns r)) right],
                         targets = [portId toTbl (firstCol (toColumns r)) left]\<rparr>])
                 (survivingRefs @ [r])))"
  by (simp only: buildEdges.simps fromKey_def toKey_def)

lemma buildEdges_snd:
  "snd (buildEdges (mkTableMap (tables schema)) rs es sv) = sv @ filter (resolves schema) rs"
proof (induction rs arbitrary: es sv)
  case Nil
  then show ?case by simp
next
  case (Cons r rs)
  show ?case
    unfolding buildEdges_Cons
    by (auto simp: Cons.IH resolves_tableMap split: option.splits)
qed

lemma buildEdges_fst:
  "fst (buildEdges (mkTableMap (tables schema)) rs es sv) =
     es @ map (\<lambda>(i, r). specEdge i r) (enumerate (length es) (filter (resolves schema) rs))"
proof (induction rs arbitrary: es sv)
  case Nil
  then show ?case by simp
next
  case (Cons r rs)
  show ?case
  proof (cases "resolves schema r")
    case False
    then show ?thesis
      unfolding buildEdges_Cons
      by (auto simp: Cons.IH resolves_tableMap split: option.splits)
  next
    case True
    then obtain ft tt where
      ft: "mkTableMap (tables schema) (fromKey r) = Some ft" and
      tt: "mkTableMap (tables schema) (toKey r) = Some tt"
      by (auto simp: resolves_tableMap)
    have k: "tableNodeId ft = fromKey r" "tableNodeId tt = toKey r"
      using mkTableMap_Some [OF ft] mkTableMap_Some [OF tt] by simp_all
    have e: "\<lparr>elkedge_id = ''e'' @ showNat (length es),
              sources = [portId ft (firstCol (fromColumns r)) right],
              targets = [portId tt (firstCol (toColumns r)) left]\<rparr> = specEdge (length es) r"
      unfolding specEdge_def portId_right portId_left firstCol_anchor k ..
    show ?thesis
      unfolding buildEdges_Cons ft tt option.case e
      using True by (simp add: Cons.IH)
  qed
qed

lemma layoutEdges_ids_from:
  "map edge_id (map (\<lambda>(i, edge). \<lparr>edge_id = resedge_id edge, ref = nthOpt sv i,
                                    points = edgePoints edge\<rparr>) (enumerate n es))
     = map resedge_id es"
  by (induction es arbitrary: n) simp_all

lemma layoutEdges_ids: "map edge_id (layoutEdges sv es) = map resedge_id es"
  unfolding layoutEdges_def by (rule layoutEdges_ids_from)

lemma layoutEdges_refs_from:
  "map ref (map (\<lambda>(i, edge). \<lparr>edge_id = resedge_id edge, ref = nthOpt sv i,
                                points = edgePoints edge\<rparr>) (enumerate n es))
     = map (nthOpt sv) [n..<n + length es]"
proof (induction es arbitrary: n)
  case Nil
  then show ?case by simp
next
  case (Cons e es)
  have "n < n + length (e # es)" by simp
  then have "[n..<n + length (e # es)] = n # [Suc n..<n + length (e # es)]"
    by (rule upt_conv_Cons)
  moreover have "n + length (e # es) = Suc n + length es" by simp
  ultimately have "[n..<n + length (e # es)] = n # [Suc n..<Suc n + length es]"
    by (simp only:)
  then show ?case by (simp only: enumerate_simps list.map prod.case Cons.IH LayoutEdge.simps)
qed

lemma layoutEdges_refs:
  assumes "length es = length sv"
  shows "map ref (layoutEdges sv es) = map Some sv"
proof -
  have "map ref (layoutEdges sv es) = map (nthOpt sv) [0..<length sv]"
    unfolding layoutEdges_def layoutEdges_refs_from by (simp add: assms)
  also have "\<dots> = map Some sv"
    by (rule nth_equalityI) (simp_all add: nthOpt_def)
  finally show ?thesis .
qed

text \<open>
  Claim C5, amended. The edge list submitted to the solver has one edge per reference
  whose two endpoint tables are in the schema's table set, in the order of the references,
  numbered from \<open>e0\<close>, and none for any other reference; the builder has no failing branch.
  When the solver returns a result with the submitted edges in order, the layout has one
  \<open>LayoutEdge\<close> per such reference, the \<open>i\<close>-th one carrying the \<open>i\<close>-th surviving
  reference. When the solver rejects the graph, the rejection reaches the caller and no
  layout is returned.
\<close>

theorem references_to_edges:
  "graph_edges (buildGraph schema direction) =
     map (\<lambda>(i, r). specEdge i r) (enumerate 0 (filter (resolves schema) (refs schema)))
   \<and> (\<forall>result. elkLayout (buildGraph schema direction) = Inr result
                \<and> map resedge_id (orEmpty (result_edges result))
                    = map elkedge_id (graph_edges (buildGraph schema direction))
        \<longrightarrow> (\<exists>L. computeLayout elkLayout schema direction = Inr L
               \<and> map ref (edges L) = map Some (filter (resolves schema) (refs schema))
               \<and> map edge_id (edges L)
                   = map elkedge_id (graph_edges (buildGraph schema direction))))
   \<and> (\<forall>err. elkLayout (buildGraph schema direction) = Inl err
        \<longrightarrow> computeLayout elkLayout schema direction = Inl err)"
proof (intro conjI allI impI)
  let ?tm = "mkTableMap (tables schema)"
  show sub: "graph_edges (buildGraph schema direction) =
           map (\<lambda>(i, r). specEdge i r) (enumerate 0 (filter (resolves schema) (refs schema)))"
    using buildEdges_fst [of schema "refs schema" "[]" "[]"] by (simp add: buildGraph_def)
  {
    fix result
    assume a: "elkLayout (buildGraph schema direction) = Inr result
                \<and> map resedge_id (orEmpty (result_edges result))
                    = map elkedge_id (graph_edges (buildGraph schema direction))"
    have sv: "snd (buildEdges ?tm (refs schema) [] []) = filter (resolves schema) (refs schema)"
      using buildEdges_snd [of schema "refs schema" "[]" "[]"] by simp
    have "length (orEmpty (result_edges result))
            = length (graph_edges (buildGraph schema direction))"
      using a by (metis length_map)
    then have len: "length (orEmpty (result_edges result))
                    = length (filter (resolves schema) (refs schema))"
      by (simp add: sub)
    have "computeLayout elkLayout schema direction =
      Inr \<lparr>nodes = concat (map (specNodes schema) (orEmpty (result_children result))),
               edges = layoutEdges (filter (resolves schema) (refs schema))
                         (orEmpty (result_edges result)),
               groups = concat (map (specGroups schema) (orEmpty (result_children result))),
               width = (case result_width result of None \<Rightarrow> 0 | Some w \<Rightarrow> w),
               height = (case result_height result of None \<Rightarrow> 0 | Some h \<Rightarrow> h)\<rparr>"
      using a by (simp add: computeLayout_unfold sv)
    then show "\<exists>L. computeLayout elkLayout schema direction = Inr L
               \<and> map ref (edges L) = map Some (filter (resolves schema) (refs schema))
               \<and> map edge_id (edges L)
                   = map elkedge_id (graph_edges (buildGraph schema direction))"
      using a by (simp add: layoutEdges_ids layoutEdges_refs [OF len])
  }
  {
    fix err
    assume "elkLayout (buildGraph schema direction) = Inl err"
    then show "computeLayout elkLayout schema direction = Inl err"
      by (simp add: computeLayout_unfold)
  }
qed

lemma ex_resolves:
  "filter (resolves exSchema) (refs exSchema) = [exRef]"
  by (simp add: resolves_def exSchema_def exTable_def tableNodeId_def fromKey_def toKey_def
        exRef_def)

lemma ex_graph_edges:
  "map elkedge_id (graph_edges (buildGraph exSchema RIGHT)) = [''e0'']"
  by (simp add: buildGraph_def exSchema_def exTable_def mkTableMap_def exRef_def showNat.simps)

lemma ex_missing_resolves:
  "filter (resolves exMissingColumn) (refs exMissingColumn) = [exRef\<lparr>fromColumns := [''q'']\<rparr>]"
  by (simp add: resolves_def exMissingColumn_def exTable_def tableNodeId_def fromKey_def
        toKey_def exRef_def)

lemma ex_missing_rejected:
  "exStrictSolver (buildGraph exMissingColumn RIGHT)
     = Inl (SolverError ''Referenced shape does not exist'')"
  by (simp add: exStrictSolver_def buildGraph_def topLevelChildren_def ungroupedTables_def
        mkTableToGroup_def exMissingColumn_def exTable_def exColumn_def mkTableMap_def exRef_def
        buildTableElkNode_def portId_def tableNodeId_def firstCol_def Let_def)

theorem references_to_edges_witness:
  "exSolver (buildGraph exSchema RIGHT) = Inr exResult
   \<and> map resedge_id (orEmpty (result_edges exResult))
         = map elkedge_id (graph_edges (buildGraph exSchema RIGHT))
   \<and> length (refs exSchema) = 2
   \<and> (\<exists>L. computeLayout exSolver exSchema RIGHT = Inr L
         \<and> map ref (edges L) = [Some exRef]
         \<and> map edge_id (edges L) = [''e0''])
   \<and> exStrictSolver (buildGraph exMissingColumn RIGHT)
       = Inl (SolverError ''Referenced shape does not exist'')
   \<and> computeLayout exStrictSolver exMissingColumn RIGHT
       = Inl (SolverError ''Referenced shape does not exist'')"
proof -
  have s: "exSolver (buildGraph exSchema RIGHT) = Inr exResult" by (simp add: exSolver_def)
  have c: "map resedge_id (orEmpty (result_edges exResult))
         = map elkedge_id (graph_edges (buildGraph exSchema RIGHT))"
    unfolding ex_graph_edges by (simp add: exResult_def orEmpty_def)
  have n: "length (refs exSchema) = 2" by (simp add: exSchema_def)
  note T = references_to_edges [of exSchema RIGHT exSolver]
  from T s c obtain L where
    L: "computeLayout exSolver exSchema RIGHT = Inr L"
    and r: "map ref (edges L) = map Some (filter (resolves exSchema) (refs exSchema))"
    and i: "map edge_id (edges L) = map elkedge_id (graph_edges (buildGraph exSchema RIGHT))"
    by blast
  have A: "\<exists>L. computeLayout exSolver exSchema RIGHT = Inr L
         \<and> map ref (edges L) = [Some exRef]
         \<and> map edge_id (edges L) = [''e0'']"
    by (rule exI [of _ L]) (simp add: L r i ex_resolves ex_graph_edges)
  note T' = references_to_edges [of exMissingColumn RIGHT exStrictSolver]
  have B: "computeLayout exStrictSolver exMissingColumn RIGHT
       = Inl (SolverError ''Referenced shape does not exist'')"
    using T' ex_missing_rejected by blast
  from s c n A ex_missing_rejected B show ?thesis by (intro conjI)
qed

text \<open>
  Claim C5 as worded fails on a reference that joins two existing tables but names a
  column the source table does not have: the reference resolves, the edge names a port
  that no node declares, the solver rejects the graph, and the rejection propagates, so
  there is no layout and no \<open>LayoutEdge\<close> for the reference.
\<close>

theorem references_to_edges_counterexample:
  "filter (resolves exMissingColumn) (refs exMissingColumn) = [exRef\<lparr>fromColumns := [''q'']\<rparr>]
   \<and> computeLayout exStrictSolver exMissingColumn RIGHT
       = Inl (SolverError ''Referenced shape does not exist'')
   \<and> \<not> claimedEdges exStrictSolver exMissingColumn RIGHT"
  by (simp add: ex_missing_resolves claimedEdges_def computeLayout_unfold ex_missing_rejected)

subsection \<open>Drag handlers\<close>

lemma fold_onMouseMove_frame:
  "layout (fold (\<lambda>g. onMouseMove g x y) gs s) = layout s
   \<and> prevLayout (fold (\<lambda>g. onMouseMove g x y) gs s) = prevLayout s
   \<and> listeners (fold (\<lambda>g. onMouseMove g x y) gs s) = listeners s"
  by (induction gs arbitrary: s) (simp_all add: onMouseMove_def)

lemma fold_onMouseUp_frame:
  "layout (fold onMouseUp gs s) = layout s
   \<and> prevLayout (fold onMouseUp gs s) = prevLayout s
   \<and> nodeOffsets (fold onMouseUp gs s) = nodeOffsets s"
  by (induction gs arbitrary: s) (simp_all add: onMouseUp_def)

lemma step_layout:
  "isDragEvent ev \<Longrightarrow> layout (step s ev) = layout s"
  by (cases ev) (simp_all add: onNodeMouseDown_def fold_onMouseMove_frame fold_onMouseUp_frame)

lemma run_layout:
  "list_all isDragEvent evs \<Longrightarrow> layout (run s evs) = layout s"
  unfolding run_def
  by (induction evs arbitrary: s) (simp_all add: step_layout)

lemma run_append: "run s (xs @ ys) = run (run s xs) ys"
  by (simp add: run_def)

lemma run_Cons: "run s (ev # evs) = run (step s ev) evs"
  by (simp add: run_def)

lemma run_Nil: "run s [] = s"
  by (simp add: run_def)

subsection \<open>The returned array\<close>

lemma adjustedPointsRef_cases:
  assumes "adjustedPointsRef offs st e = Inr (a, st')"
  shows "(a = eo_points e \<and> st' = st \<and> adjustedPoints offs (load st e) = Inr (points (load st e)))
       \<or> (\<exists>ps. a = length st \<and> st' = st @ [ps] \<and> adjustedPoints offs (load st e) = Inr ps)"
proof (cases "edgeNodeIds (load st e)")
  case (Inl err)
  with assms show ?thesis by (simp add: adjustedPointsRef_def)
next
  case (Inr ids)
  obtain fromId toId where ids: "ids = (fromId, toId)" by (cases ids)
  let ?z = "dx (offsetOr0 offs fromId) = 0 \<and> dy (offsetOr0 offs fromId) = 0
            \<and> dx (offsetOr0 offs toId) = 0 \<and> dy (offsetOr0 offs toId) = 0"
  show ?thesis
  proof (cases ?z)
    case True
    then have "adjustedPoints offs (load st e) = Inr (points (load st e))"
      by (simp add: adjustedPoints_def Inr ids)
    moreover from True assms have "a = eo_points e \<and> st' = st"
      by (simp add: adjustedPointsRef_def Inr ids)
    ultimately show ?thesis by simp
  next
    case False
    with assms show ?thesis
      by (auto simp: adjustedPointsRef_def Inr ids Let_def split: sum.splits)
  qed
qed

text \<open>
  Claim C8. Over any sequence of drag events (mouse press on a node, pointer moves,
  release) the \<open>layout\<close> prop, with its nodes, edges and groups, stays what it was: the
  handlers write the displacement map, the dragged node's id and the listener list only.
  A call of \<open>adjustedPoints\<close> with the displacement map so reached leaves every array of
  the store as it was, the edge's own included, and returns either that array or one
  allocated by the call; in both cases the returned array holds the adjusted polyline.
\<close>

theorem drag_frame:
  assumes "list_all isDragEvent evs"
    and "eo_points e < length st"
    and "adjustedPointsRef (nodeOffsets (run s evs)) st e = Inr (a, st')"
  shows "layout (run s evs) = layout s
       \<and> (\<forall>i<length st. st' ! i = st ! i)
       \<and> (a = eo_points e \<and> st' = st \<or> a = length st \<and> length st' = Suc (length st))
       \<and> adjustedPoints (nodeOffsets (run s evs)) (load st e) = Inr (st' ! a)"
proof -
  from adjustedPointsRef_cases [OF assms(3)]
  consider (same) "a = eo_points e" "st' = st"
      "adjustedPoints (nodeOffsets (run s evs)) (load st e) = Inr (points (load st e))"
    | (fresh) ps where "a = length st" "st' = st @ [ps]"
      "adjustedPoints (nodeOffsets (run s evs)) (load st e) = Inr ps"
    by blast
  then have "(\<forall>i<length st. st' ! i = st ! i)
       \<and> (a = eo_points e \<and> st' = st \<or> a = length st \<and> length st' = Suc (length st))
       \<and> adjustedPoints (nodeOffsets (run s evs)) (load st e) = Inr (st' ! a)"
  proof cases
    case same
    then show ?thesis by (simp add: load_def)
  next
    case fresh
    then show ?thesis by (simp add: nth_append)
  qed
  with run_layout [OF assms(1)] show ?thesis by simp
qed

lemma ex_drag_offsets:
  "nodeOffsets (run exComponent exDrag) = [''public.B'' \<mapsto> \<lparr>dx = 20, dy = 5\<rparr>]"
  by (simp add: run_def exDrag_def exComponent_def onNodeMouseDown_def onMouseMove_def
        onMouseUp_def exNodeB_def)

theorem drag_frame_witness:
  "list_all isDragEvent exDrag \<and> eo_points exEdgeObj < length exStore
   \<and> (\<exists>st'. adjustedPointsRef (nodeOffsets (run exComponent exDrag)) exStore exEdgeObj = Inr (1, st')
         \<and> layout (run exComponent exDrag) = layout exComponent
         \<and> st' ! 0 = exStore ! 0
         \<and> adjustedPoints (nodeOffsets (run exComponent exDrag)) (load exStore exEdgeObj)
             = Inr (st' ! 1))"
proof -
  have d: "list_all isDragEvent exDrag" by (simp add: exDrag_def)
  have v: "eo_points exEdgeObj < length exStore" by (simp add: exEdgeObj_def exStore_def)
  have "\<exists>ps. adjustedPointsRef (nodeOffsets (run exComponent exDrag)) exStore exEdgeObj
           = Inr (1, exStore @ [ps])"
    unfolding ex_drag_offsets
    by (simp add: adjustedPointsRef_def adjustedPoints_def edgeNodeIds_def load_def exEdgeObj_def
          exStore_def exEdge_def exRef_def offsetOr0_def Let_def)
  then obtain ps where
    r: "adjustedPointsRef (nodeOffsets (run exComponent exDrag)) exStore exEdgeObj
           = Inr (1, exStore @ [ps])" ..
  from drag_frame [OF d v r]
  have "layout (run exComponent exDrag) = layout exComponent"
    and "\<forall>i<length exStore. (exStore @ [ps]) ! i = exStore ! i"
    and "adjustedPoints (nodeOffsets (run exComponent exDrag)) (load exStore exEdgeObj)
             = Inr ((exStore @ [ps]) ! 1)"
    by simp_all
  then have "adjustedPointsRef (nodeOffsets (run exComponent exDrag)) exStore exEdgeObj
               = Inr (1, exStore @ [ps])
         \<and> layout (run exComponent exDrag) = layout exComponent
         \<and> (exStore @ [ps]) ! 0 = exStore ! 0
         \<and> adjustedPoints (nodeOffsets (run exComponent exDrag)) (load exStore exEdgeObj)
             = Inr ((exStore @ [ps]) ! 1)"
    using r by (simp add: exStore_def)
  then have "\<exists>st'. adjustedPointsRef (nodeOffsets (run exComponent exDrag)) exStore exEdgeObj = Inr (1, st')
         \<and> layout (run exComponent exDrag) = layout exComponent
         \<and> st' ! 0 = exStore ! 0
         \<and> adjustedPoints (nodeOffsets (run exComponent exDrag)) (load exStore exEdgeObj)
             = Inr (st' ! 1)"
    by (rule exI [of _ "exStore @ [ps]"])
  with d v show ?thesis by (intro conjI)
qed

subsection \<open>Displacements over a gesture\<close>

lemma fold_onMouseMove_last:
  "nodeOffsets (fold (\<lambda>g. onMouseMove g x y) (gs @ [g]) s) (g_node g) =
     Some \<lparr>dx = g_startDx g + (x - g_startX g) / g_scale g,
           dy = g_startDy g + (y - g_startY g) / g_scale g\<rparr>"
  by (simp add: onMouseMove_def)

lemma step_move_last:
  assumes "listeners s = gs @ [g]"
  shows "listeners (step s (DocMouseMove x y)) = gs @ [g]"
    and "nodeOffsets (step s (DocMouseMove x y)) (g_node g) =
           Some \<lparr>dx = g_startDx g + (x - g_startX g) / g_scale g,
                 dy = g_startDy g + (y - g_startY g) / g_scale g\<rparr>"
proof -
  have "listeners (step s (DocMouseMove x y)) = listeners s"
    unfolding step.simps by (simp only: fold_onMouseMove_frame)
  then show "listeners (step s (DocMouseMove x y)) = gs @ [g]"
    using assms by simp
  show "nodeOffsets (step s (DocMouseMove x y)) (g_node g) =
           Some \<lparr>dx = g_startDx g + (x - g_startX g) / g_scale g,
                 dy = g_startDy g + (y - g_startY g) / g_scale g\<rparr>"
    unfolding step.simps assms by (rule fold_onMouseMove_last)
qed

lemma moves_last:
  assumes "listeners s = gs @ [g]"
  shows "listeners (run s (pointerMoves ms)) = gs @ [g]
       \<and> (ms \<noteq> [] \<longrightarrow>
            nodeOffsets (run s (pointerMoves ms)) (g_node g) =
              Some \<lparr>dx = g_startDx g + (fst (last ms) - g_startX g) / g_scale g,
                    dy = g_startDy g + (snd (last ms) - g_startY g) / g_scale g\<rparr>)"
proof (induction ms rule: rev_induct)
  case Nil
  then show ?case using assms by (simp add: pointerMoves_def run_Nil)
next
  case (snoc m ms)
  obtain x y where m: "m = (x, y)" by (cases m)
  let ?s = "run s (pointerMoves ms)"
  from snoc have l: "listeners ?s = gs @ [g]" by simp
  have r: "run s (pointerMoves (ms @ [m])) = step ?s (DocMouseMove x y)"
    by (simp add: pointerMoves_def run_append run_Cons run_Nil m)
  show ?case
    unfolding r using step_move_last [OF l, of x y] by (simp add: m)
qed

lemma press_left:
  "listeners (step s (NodeMouseDown 0 sx sy k node)) =
     listeners s @
       [\<lparr>g_node = node_id node, g_startX = sx, g_startY = sy,
         g_startDx = dx (offsetOr0 (nodeOffsets s) (node_id node)),
         g_startDy = dy (offsetOr0 (nodeOffsets s) (node_id node)),
         g_scale = k\<rparr>]"
  by (simp add: onNodeMouseDown_def offsetOr0_def split: option.splits)

lemma fold_remove1_self: "fold remove1 xs (xs @ ys) = ys"
  by (induction xs) simp_all

lemma listeners_fold_onMouseUp:
  "listeners (fold onMouseUp gs s) = fold remove1 gs (listeners s)"
  by (induction gs arbitrary: s) (simp_all add: onMouseUp_def)

lemma release_all:
  "listeners (step s DocMouseUp) = []"
  "nodeOffsets (step s DocMouseUp) = nodeOffsets s"
  using fold_remove1_self [of "listeners s" "[]"]
  by (simp_all add: listeners_fold_onMouseUp fold_onMouseUp_frame)

lemma gesture_offsets:
  assumes "ms \<noteq> []"
  shows "nodeOffsets (run s (NodeMouseDown 0 sx sy k node # pointerMoves ms)) (node_id node) =
           Some (dragged (offsetOr0 (nodeOffsets s) (node_id node)) (sx, sy) (last ms) k)"
    and "nodeOffsets (run s (NodeMouseDown 0 sx sy k node # pointerMoves ms @ [DocMouseUp]))
           (node_id node) =
           Some (dragged (offsetOr0 (nodeOffsets s) (node_id node)) (sx, sy) (last ms) k)"
proof -
  let ?g = "\<lparr>g_node = node_id node, g_startX = sx, g_startY = sy,
             g_startDx = dx (offsetOr0 (nodeOffsets s) (node_id node)),
             g_startDy = dy (offsetOr0 (nodeOffsets s) (node_id node)),
             g_scale = k\<rparr>"
  let ?s1 = "step s (NodeMouseDown 0 sx sy k node)"
  let ?s2 = "run ?s1 (pointerMoves ms)"
  have l1: "listeners ?s1 = listeners s @ [?g]" by (rule press_left)
  from moves_last [OF l1, of ms] assms
  have o2: "nodeOffsets ?s2 (node_id node) =
           Some (dragged (offsetOr0 (nodeOffsets s) (node_id node)) (sx, sy) (last ms) k)"
    by (simp add: dragged_def)
  show "nodeOffsets (run s (NodeMouseDown 0 sx sy k node # pointerMoves ms)) (node_id node) =
           Some (dragged (offsetOr0 (nodeOffsets s) (node_id node)) (sx, sy) (last ms) k)"
    using o2 by (simp add: run_Cons)
  have r: "run s (NodeMouseDown 0 sx sy k node # pointerMoves ms @ [DocMouseUp])
             = step ?s2 DocMouseUp"
    by (simp add: run_Cons run_append run_Nil)
  show "nodeOffsets (run s (NodeMouseDown 0 sx sy k node # pointerMoves ms @ [DocMouseUp]))
           (node_id node) =
           Some (dragged (offsetOr0 (nodeOffsets s) (node_id node)) (sx, sy) (last ms) k)"
    unfolding r release_all(2) by (rule o2)
qed

lemma idle_moves:
  "listeners s = [] \<Longrightarrow> run s (pointerMoves idle) = s"
proof (induction idle)
  case Nil
  then show ?case by (simp add: pointerMoves_def run_Nil)
next
  case (Cons m idle)
  obtain x y where m: "m = (x, y)" by (cases m)
  have "step s (DocMouseMove x y) = s" using Cons.prems by simp
  then have "run s (pointerMoves (m # idle)) = run s (pointerMoves idle)"
    by (simp add: pointerMoves_def run_Cons m)
  with Cons show ?case by simp
qed

lemma released_state:
  assumes "ms \<noteq> []"
  shows "listeners (run s (NodeMouseDown 0 sx sy k node # pointerMoves ms @ [DocMouseUp]
                            @ pointerMoves idle)) = []"
    and "nodeOffsets (run s (NodeMouseDown 0 sx sy k node # pointerMoves ms @ [DocMouseUp]
                              @ pointerMoves idle)) (node_id node)
           = Some (dragged (offsetOr0 (nodeOffsets s) (node_id node)) (sx, sy) (last ms) k)"
proof -
  let ?u = "run s (NodeMouseDown 0 sx sy k node # pointerMoves ms @ [DocMouseUp])"
  have u: "?u = step (run (step s (NodeMouseDown 0 sx sy k node)) (pointerMoves ms)) DocMouseUp"
    by (simp add: run_Cons run_append run_Nil)
  have l: "listeners ?u = []" unfolding u by (rule release_all(1))
  have split: "NodeMouseDown 0 sx sy k node # pointerMoves ms @ [DocMouseUp] @ pointerMoves idle
                 = (NodeMouseDown 0 sx sy k node # pointerMoves ms @ [DocMouseUp])
                   @ pointerMoves idle"
    by simp
  have e: "run s (NodeMouseDown 0 sx sy k node # pointerMoves ms @ [DocMouseUp]
                   @ pointerMoves idle) = ?u"
    unfolding split run_append by (rule idle_moves [OF l])
  show "listeners (run s (NodeMouseDown 0 sx sy k node # pointerMoves ms @ [DocMouseUp]
                            @ pointerMoves idle)) = []"
    unfolding e by (rule l)
  show "nodeOffsets (run s (NodeMouseDown 0 sx sy k node # pointerMoves ms @ [DocMouseUp]
                              @ pointerMoves idle)) (node_id node)
           = Some (dragged (offsetOr0 (nodeOffsets s) (node_id node)) (sx, sy) (last ms) k)"
    unfolding e using assms by (rule gesture_offsets(2))
qed

text \<open>
  Claim C9. When the \<open>layout\<close> prop becomes a layout object other than the one last seen
  (every computed layout is a new object), the displacement map is empty afterwards.
  In a gesture (left button pressed on a node, at zoom scale \<open>k > 0\<close>), after any pointer
  moves the node's displacement is the displacement \<open>start\<close> it had when the gesture began
  plus the pointer's travel since the press, in diagram units. After the release the node
  keeps that displacement however the pointer moves, so that a second gesture on the node
  adds its own travel to it.
\<close>

theorem displacement_lifecycle:
  assumes "hasDisplacement (nodeOffsets s) (node_id node) start"
    and "ms \<noteq> []" and "ms' \<noteq> []" and "0 < k" and "0 < k'"
  shows "(map_option obj_ident (prevLayout c) \<noteq> Some (obj_ident l)
            \<longrightarrow> nodeOffsets (step c (LayoutProp (Some l))) = Map.empty)
       \<and> nodeOffsets (run s (NodeMouseDown 0 sx sy k node # pointerMoves ms)) (node_id node)
           = Some \<lparr>dx = dx start + (fst (last ms) - sx) / k,
                   dy = dy start + (snd (last ms) - sy) / k\<rparr>
       \<and> nodeOffsets (run s (NodeMouseDown 0 sx sy k node # pointerMoves ms @ [DocMouseUp]
                                @ pointerMoves idle))
             (node_id node)
           = Some \<lparr>dx = dx start + (fst (last ms) - sx) / k,
                   dy = dy start + (snd (last ms) - sy) / k\<rparr>
       \<and> nodeOffsets (run s ((NodeMouseDown 0 sx sy k node # pointerMoves ms @ [DocMouseUp]
                                 @ pointerMoves idle)
                              @ NodeMouseDown 0 sx' sy' k' node # pointerMoves ms'))
             (node_id node)
           = Some \<lparr>dx = dx start + (fst (last ms) - sx) / k + (fst (last ms') - sx') / k',
                   dy = dy start + (snd (last ms) - sy) / k + (snd (last ms') - sy') / k'\<rparr>"
proof -
  let ?g1 = "NodeMouseDown 0 sx sy k node # pointerMoves ms @ [DocMouseUp] @ pointerMoves idle"
  let ?s' = "run s ?g1"
  let ?d1 = "\<lparr>dx = dx start + (fst (last ms) - sx) / k,
              dy = dy start + (snd (last ms) - sy) / k\<rparr>"
  have st: "offsetOr0 (nodeOffsets s) (node_id node) = start"
    using assms(1) by (rule offsetOr0_hasDisplacement)
  have reset: "map_option obj_ident (prevLayout c) \<noteq> Some (obj_ident l)
            \<longrightarrow> nodeOffsets (step c (LayoutProp (Some l))) = Map.empty"
    by (simp add: layoutEffect_def)
  have first: "nodeOffsets (run s (NodeMouseDown 0 sx sy k node # pointerMoves ms)) (node_id node)
                 = Some ?d1"
    using gesture_offsets(1) [OF assms(2), of s sx sy k node] by (simp add: st dragged_def)
  have rel: "nodeOffsets ?s' (node_id node) = Some ?d1"
    using released_state(2) [OF assms(2), of s sx sy k node idle] by (simp add: st dragged_def)
  then have start': "offsetOr0 (nodeOffsets ?s') (node_id node) = ?d1"
    by (simp add: offsetOr0_def)
  have "nodeOffsets (run ?s' (NodeMouseDown 0 sx' sy' k' node # pointerMoves ms')) (node_id node)
          = Some (dragged (offsetOr0 (nodeOffsets ?s') (node_id node)) (sx', sy') (last ms') k')"
    using assms(3) by (rule gesture_offsets(1))
  then have second: "nodeOffsets (run s (?g1 @ NodeMouseDown 0 sx' sy' k' node # pointerMoves ms'))
             (node_id node)
           = Some \<lparr>dx = dx start + (fst (last ms) - sx) / k + (fst (last ms') - sx') / k',
                   dy = dy start + (snd (last ms) - sy) / k + (snd (last ms') - sy') / k'\<rparr>"
    unfolding start' by (simp only: run_append dragged_def fst_conv snd_conv offset.simps)
  from reset first rel second show ?thesis by (intro conjI)
qed

theorem displacement_lifecycle_witness:
  "hasDisplacement (nodeOffsets exComponent) (node_id exNodeB) \<lparr>dx = 0, dy = 0\<rparr>
   \<and> [(20, 12), (30, 15)] \<noteq> ([] :: (real \<times> real) list)
   \<and> [(45, 40)] \<noteq> ([] :: (real \<times> real) list) \<and> (0::real) < 1 \<and> (0::real) < 2
   \<and> map_option obj_ident (prevLayout (run exComponent exDrag)) \<noteq> Some (obj_ident exRelayout)
   \<and> nodeOffsets (run exComponent exDrag) \<noteq> Map.empty
   \<and> nodeOffsets (step (run exComponent exDrag) (LayoutProp (Some exRelayout))) = Map.empty
   \<and> nodeOffsets (run exComponent (NodeMouseDown 0 10 10 1 exNodeB # pointerMoves [(20, 12), (30, 15)]))
        ''public.B'' = Some \<lparr>dx = 20, dy = 5\<rparr>
   \<and> nodeOffsets (run exComponent
          (NodeMouseDown 0 10 10 1 exNodeB # pointerMoves [(20, 12), (30, 15)] @ [DocMouseUp]
           @ pointerMoves [(100, 100), (35, 40)]))
        ''public.B'' = Some \<lparr>dx = 20, dy = 5\<rparr>
   \<and> nodeOffsets (run exComponent
          ((NodeMouseDown 0 10 10 1 exNodeB # pointerMoves [(20, 12), (30, 15)] @ [DocMouseUp]
            @ pointerMoves [(100, 100), (35, 40)])
           @ NodeMouseDown 0 35 40 2 exNodeB # pointerMoves [(45, 40)]))
        ''public.B'' = Some \<lparr>dx = 25, dy = 5\<rparr>"
proof -
  have h: "hasDisplacement (nodeOffsets exComponent) (node_id exNodeB) \<lparr>dx = 0, dy = 0\<rparr>"
    by (simp add: hasDisplacement_def exComponent_def)
  have b: "[(20, 12), (30, 15)] \<noteq> ([] :: (real \<times> real) list)" by simp
  have c: "[(45, 40)] \<noteq> ([] :: (real \<times> real) list)" by simp
  have k: "(0::real) < 1" "(0::real) < 2" by simp_all
  have p: "map_option obj_ident (prevLayout (run exComponent exDrag)) \<noteq> Some (obj_ident exRelayout)"
    by (simp add: run_def exDrag_def exComponent_def onNodeMouseDown_def onMouseMove_def
          onMouseUp_def exRelayout_def)
  have q: "nodeOffsets (run exComponent exDrag) \<noteq> Map.empty"
    unfolding ex_drag_offsets by simp
  have n: "node_id exNodeB = ''public.B''" by (simp add: exNodeB_def)
  note T = displacement_lifecycle [OF h b c k, of "run exComponent exDrag" exRelayout
             10 10 "[(100, 100), (35, 40)]" 35 40]
  have 1: "nodeOffsets (step (run exComponent exDrag) (LayoutProp (Some exRelayout))) = Map.empty"
    using T p by blast
  have 2: "nodeOffsets (run exComponent (NodeMouseDown 0 10 10 1 exNodeB # pointerMoves [(20, 12), (30, 15)]))
        ''public.B'' = Some \<lparr>dx = 20, dy = 5\<rparr>"
    using T by (simp add: n)
  have 3: "nodeOffsets (run exComponent
          (NodeMouseDown 0 10 10 1 exNodeB # pointerMoves [(20, 12), (30, 15)] @ [DocMouseUp]
           @ pointerMoves [(100, 100), (35, 40)]))
        ''public.B'' = Some \<lparr>dx = 20, dy = 5\<rparr>"
    using T by (simp add: n)
  have 4: "nodeOffsets (run exComponent
          ((NodeMouseDown 0 10 10 1 exNodeB # pointerMoves [(20, 12), (30, 15)] @ [DocMouseUp]
            @ pointerMoves [(100, 100), (35, 40)])
           @ NodeMouseDown 0 35 40 2 exNodeB # pointerMoves [(45, 40)]))
        ''public.B'' = Some \<lparr>dx = 25, dy = 5\<rparr>"
    using T by (simp add: n)
  from h b c k p q 1 2 3 4 show ?thesis by (intro conjI)
qed

subsection \<open>Nodes of the submitted graph\<close>

lemma mkTableMap_distinct:
  assumes "distinct (map tableNodeId ts)" and "t \<in> set ts"
  shows "mkTableMap ts (tableNodeId t) = Some t"
proof -
  from assms(2) have "mkTableMap ts (tableNodeId t) \<noteq> None"
    by (simp add: mkTableMap_None)
  then obtain u where u: "mkTableMap ts (tableNodeId t) = Some u" by blast
  from mkTableMap_Some [OF u] have "tableNodeId u = tableNodeId t" "u \<in> set ts" by simp_all
  with assms have "u = t" by (meson distinct_map inj_onD)
  with u show ?thesis by simp
qed

lemma elk_id_build: "elk_id (buildTableElkNode t d) = tableNodeId t"
  by (simp add: buildTableElkNode_def)

lemma groupChildren_ids:
  "map elk_id (groupChildren (mkTableMap ts) d ms) =
     filter (\<lambda>k. k \<in> set (map tableNodeId ts)) (map memberKey ms)"
proof (induction ms)
  case Nil
  then show ?case by simp
next
  case (Cons r ms)
  show ?case
  proof (cases "mkTableMap ts (memberKey r)")
    case None
    have "groupChildren (mkTableMap ts) d (r # ms) = groupChildren (mkTableMap ts) d ms"
      by (simp add: None)
    moreover have "memberKey r \<notin> set (map tableNodeId ts)"
      using None by (simp add: mkTableMap_None)
    ultimately show ?thesis using Cons.IH by simp
  next
    case (Some t)
    from mkTableMap_Some [OF Some] have k: "tableNodeId t = memberKey r" and "t \<in> set ts"
      by simp_all
    then have m: "memberKey r \<in> set (map tableNodeId ts)" by force
    have "groupChildren (mkTableMap ts) d (r # ms)
            = buildTableElkNode t d # groupChildren (mkTableMap ts) d ms"
      by (simp add: Some)
    then have "map elk_id (groupChildren (mkTableMap ts) d (r # ms))
            = memberKey r # map elk_id (groupChildren (mkTableMap ts) d ms)"
      by (simp add: elk_id_build k)
    also have "\<dots> = filter (\<lambda>k. k \<in> set (map tableNodeId ts)) (map memberKey (r # ms))"
      unfolding Cons.IH using m by simp
    finally show ?thesis .
  qed
qed

lemma groupNodes_tableIds:
  "concat (map tableIdsOf (groupNodes (mkTableMap ts) d gs)) =
     filter (\<lambda>k. k \<in> set (map tableNodeId ts))
            (concat (map (\<lambda>g. map memberKey (grp_tables g)) gs))"
proof (induction gs)
  case Nil
  then show ?case by simp
next
  case (Cons g gs)
  have e: "groupChildren (mkTableMap ts) d (grp_tables g) = [] \<Longrightarrow>
        filter (\<lambda>k. k \<in> set (map tableNodeId ts)) (map memberKey (grp_tables g)) = []"
    using groupChildren_ids [of ts d "grp_tables g"] by simp
  show ?case
    using Cons.IH e by (simp add: Let_def groupChildren_ids)
qed

lemma groupNodes_groupIds:
  "concat (map groupIdsOf (groupNodes tm d gs)) =
     map groupNodeId (filter (\<lambda>g. groupChildren tm d (grp_tables g) \<noteq> []) gs)"
  by (induction gs) (simp_all add: Let_def)

lemma fold_member_None:
  "(fold (\<lambda>r m'. m'(memberKey r \<mapsto> g)) ms m0 k = None)
     = (m0 k = None \<and> k \<notin> set (map memberKey ms))"
  by (induction ms arbitrary: m0) auto

lemma fold_groups_None:
  "(fold (\<lambda>grp m. fold (\<lambda>r m'. m'(memberKey r \<mapsto> grp)) (grp_tables grp) m) gs m0 k = None)
     = (m0 k = None \<and> k \<notin> set (concat (map (\<lambda>g. map memberKey (grp_tables g)) gs)))"
  by (induction gs arbitrary: m0) (auto simp: fold_member_None)

lemma mkTableToGroup_None:
  "(mkTableToGroup gs k = None) = (k \<notin> set (concat (map (\<lambda>g. map memberKey (grp_tables g)) gs)))"
  unfolding mkTableToGroup_def fold_groups_None by simp

lemma mset_ungroupedTables:
  "mset (ungroupedTables schema) =
     mset (filter (\<lambda>t. tableNodeId t \<notin> set (memberKeys schema)) (tables schema))"
  by (simp add: ungroupedTables_def Let_def mkTableToGroup_None memberKeys_def)

lemma tableIds_buildGraph:
  "tableIds (buildGraph schema d) =
     filter (\<lambda>k. k \<in> set (map tableNodeId (tables schema))) (memberKeys schema)
     @ map tableNodeId (ungroupedTables schema)"
  by (simp add: tableIds_def buildGraph_def topLevelChildren_def groupNodes_tableIds
        memberKeys_def comp_def elk_id_build)

lemma groupIds_buildGraph:
  "concat (map groupIdsOf (graph_children (buildGraph schema d))) =
     map groupNodeId
       (filter (\<lambda>g. groupChildren (mkTableMap (tables schema)) d (grp_tables g) \<noteq> [])
               (tableGroups schema))"
  by (simp add: buildGraph_def topLevelChildren_def groupNodes_groupIds comp_def)

lemma mset_nodeIdsOf: "mset (nodeIdsOf n) = mset (groupIdsOf n) + mset (tableIdsOf n)"
  by (cases n) simp_all

lemma mset_concat_split:
  "mset (concat (map nodeIdsOf ns)) =
     mset (concat (map groupIdsOf ns)) + mset (concat (map tableIdsOf ns))"
  by (induction ns) (simp_all add: mset_nodeIdsOf)

lemma count_list_filter:
  "count_list (filter P xs) k = (if P k then count_list xs k else 0)"
  by (induction xs) auto

lemma count_list_map_filter_key:
  "count_list (map f (filter (\<lambda>t. R (f t)) ts)) k = (if R k then count_list (map f ts) k else 0)"
  by (induction ts) auto

lemma count_list_distinct:
  "distinct xs \<Longrightarrow> x \<in> set xs \<Longrightarrow> count_list xs x = 1"
  by (induction xs) (auto simp: count_list_0_iff)

lemma count_ungrouped:
  "count_list (map tableNodeId (ungroupedTables schema)) k =
     (if k \<notin> set (memberKeys schema) then count_list (map tableNodeId (tables schema)) k else 0)"
proof -
  have "count_list (map tableNodeId (ungroupedTables schema)) k
          = count (image_mset tableNodeId (mset (ungroupedTables schema))) k"
    by (simp flip: count_mset)
  also have "\<dots> = count_list (map tableNodeId
        (filter (\<lambda>t. tableNodeId t \<notin> set (memberKeys schema)) (tables schema))) k"
    unfolding mset_ungroupedTables by (simp flip: count_mset)
  also have "\<dots> = (if k \<notin> set (memberKeys schema)
                      then count_list (map tableNodeId (tables schema)) k else 0)"
    by (rule count_list_map_filter_key [of tableNodeId "\<lambda>k. k \<notin> set (memberKeys schema)"])
  finally show ?thesis .
qed

lemma count_tableIds:
  assumes "distinct (map tableNodeId (tables schema))"
    and "membersOnce schema"
    and "t \<in> set (tables schema)"
  shows "count_list (tableIds (buildGraph schema d)) (tableNodeId t) = 1"
proof -
  let ?k = "tableNodeId t"
  have k: "?k \<in> set (map tableNodeId (tables schema))" using assms(3) by simp
  have one: "count_list (map tableNodeId (tables schema)) ?k = 1"
    using assms(1) k by (rule count_list_distinct)
  have le: "count_list (memberKeys schema) ?k \<le> 1"
    using assms(2,3) by (simp add: membersOnce_def list_all_iff)
  show ?thesis
  proof (cases "?k \<in> set (memberKeys schema)")
    case True
    then have "count_list (memberKeys schema) ?k \<noteq> 0" by (simp add: count_list_0_iff)
    with le have "count_list (memberKeys schema) ?k = 1" by simp
    with True k show ?thesis
      by (simp add: tableIds_buildGraph count_list_filter count_ungrouped del: set_map)
  next
    case False
    then have "count_list (memberKeys schema) ?k = 0" by (simp add: count_list_0_iff)
    with False k one show ?thesis
      by (simp add: tableIds_buildGraph count_list_filter count_ungrouped del: set_map)
  qed
qed


lemma set_tableIds:
  "set (tableIds (buildGraph schema d)) \<subseteq> set (map tableNodeId (tables schema))"
proof -
  have "set (ungroupedTables schema) \<subseteq> set (tables schema)"
    by (simp add: ungroupedTables_def Let_def)
  then show ?thesis unfolding tableIds_buildGraph by auto
qed

lemma distinct_count_one:
  assumes "\<And>x. x \<in> set xs \<Longrightarrow> count_list xs x = 1"
  shows "distinct xs"
  unfolding distinct_count_atmost_1 count_mset
  using assms by (simp add: count_list_0_iff)

lemma distinct_tableIds:
  assumes "distinct (map tableNodeId (tables schema))" and "membersOnce schema"
  shows "distinct (tableIds (buildGraph schema d))"
proof (rule distinct_count_one)
  fix x assume "x \<in> set (tableIds (buildGraph schema d))"
  with set_tableIds obtain t where "t \<in> set (tables schema)" "x = tableNodeId t"
    by fastforce
  then show "count_list (tableIds (buildGraph schema d)) x = 1"
    using count_tableIds [OF assms] by simp
qed

lemma groupNodeId_inj: "groupNodeId g = groupNodeId g' \<Longrightarrow> grp_name g = grp_name g'"
  by (simp add: groupNodeId_def)

lemma distinct_groupIds:
  assumes "distinct (map grp_name (tableGroups schema))"
  shows "distinct (concat (map groupIdsOf (graph_children (buildGraph schema d))))"
proof -
  from assms have d: "distinct (tableGroups schema)"
    and i: "inj_on grp_name (set (tableGroups schema))"
    by (simp_all add: distinct_map)
  have "inj_on groupNodeId (set (tableGroups schema))"
    by (rule inj_onI) (metis groupNodeId_inj i inj_onD)
  then have "inj_on groupNodeId
     (set (filter (\<lambda>g. groupChildren (mkTableMap (tables schema)) d (grp_tables g) \<noteq> [])
                  (tableGroups schema)))"
    by (rule inj_on_subset) simp
  with d show ?thesis
    unfolding groupIds_buildGraph by (simp add: distinct_map)
qed

lemma distinct_nodeIds:
  assumes "distinct (map tableNodeId (tables schema))"
    and "distinct (map grp_name (tableGroups schema))"
    and "\<forall>t\<in>set (tables schema). \<forall>g\<in>set (tableGroups schema). tableNodeId t \<noteq> groupNodeId g"
    and "membersOnce schema"
  shows "distinct (nodeIds (buildGraph schema d))"
proof -
  let ?G = "graph_children (buildGraph schema d)"
  let ?gi = "concat (map groupIdsOf ?G)"
  have m: "mset (nodeIds (buildGraph schema d)) = mset (?gi @ tableIds (buildGraph schema d))"
    by (simp add: nodeIds_def tableIds_def mset_concat_split)
  have "set ?gi \<subseteq> groupNodeId ` set (tableGroups schema)"
    unfolding groupIds_buildGraph by auto
  with set_tableIds [of schema d] assms(3)
  have "set ?gi \<inter> set (tableIds (buildGraph schema d)) = {}"
    by fastforce
  with distinct_groupIds [OF assms(2)] distinct_tableIds [OF assms(1,4)]
  have "distinct (?gi @ tableIds (buildGraph schema d))" by simp
  with m show ?thesis by (metis mset_eq_imp_distinct_iff)
qed

lemma groupChildren_member:
  "r \<in> set ms \<Longrightarrow> tm (memberKey r) = Some t
     \<Longrightarrow> buildTableElkNode t d \<in> set (groupChildren tm d ms)"
  by (induction ms) (auto split: option.splits)

lemma groupNodes_member:
  "g \<in> set gs \<Longrightarrow> groupChildren tm d (grp_tables g) \<noteq> []
     \<Longrightarrow> GroupNode (groupNodeId g) (groupChildren tm d (grp_tables g)) \<in> set (groupNodes tm d gs)"
  by (induction gs) (auto simp: Let_def)

lemma placed_in_group:
  assumes "distinct (map tableNodeId (tables schema))"
    and "t \<in> set (tables schema)" and "g \<in> set (tableGroups schema)"
    and "tableNodeId t \<in> set (map memberKey (grp_tables g))"
  shows "\<exists>cs. GroupNode (groupNodeId g) cs \<in> set (graph_children (buildGraph schema d))
              \<and> buildTableElkNode t d \<in> set cs"
proof -
  let ?tm = "mkTableMap (tables schema)"
  let ?cs = "groupChildren ?tm d (grp_tables g)"
  from assms(4) obtain r where r: "r \<in> set (grp_tables g)" "memberKey r = tableNodeId t"
    by auto
  have "?tm (memberKey r) = Some t"
    using mkTableMap_distinct [OF assms(1,2)] r(2) by simp
  with r(1) have in_cs: "buildTableElkNode t d \<in> set ?cs" by (rule groupChildren_member)
  then have "?cs \<noteq> []" by auto
  with assms(3) have "GroupNode (groupNodeId g) ?cs \<in> set (groupNodes ?tm d (tableGroups schema))"
    by (rule groupNodes_member)
  then have "GroupNode (groupNodeId g) ?cs \<in> set (graph_children (buildGraph schema d))"
    by (simp add: buildGraph_def topLevelChildren_def)
  with in_cs show ?thesis by blast
qed

lemma placed_top_level:
  assumes "t \<in> set (tables schema)" and "tableNodeId t \<notin> set (memberKeys schema)"
  shows "TableNode (buildTableElkNode t d) \<in> set (graph_children (buildGraph schema d))"
proof -
  from assms have "t \<in> set (ungroupedTables schema)"
    by (simp add: ungroupedTables_def Let_def mkTableToGroup_None memberKeys_def)
  then show ?thesis by (simp add: buildGraph_def topLevelChildren_def)
qed

text \<open>
  Claim C10, amended. In a schema whose table identities are pairwise different (as the
  data model requires), whose group names are pairwise different, in which no table
  identity equals a group's node id, and in which each table occurs at most once across
  all group member lists: every table occurs exactly once among the table nodes of the
  submitted graph, inside the compound node of the group that lists it, or at top level
  when no group lists it, and no node id occurs twice.
\<close>

theorem unique_nodes:
  assumes "distinct (map tableNodeId (tables schema))"
    and "distinct (map grp_name (tableGroups schema))"
    and "\<forall>t\<in>set (tables schema). \<forall>g\<in>set (tableGroups schema). tableNodeId t \<noteq> groupNodeId g"
    and "membersOnce schema"
  shows "list_all (\<lambda>t. count_list (tableIds (buildGraph schema d)) (tableNodeId t) = 1)
                  (tables schema)
       \<and> distinct (nodeIds (buildGraph schema d))
       \<and> (\<forall>t\<in>set (tables schema).
            (\<forall>g\<in>set (tableGroups schema).
               tableNodeId t \<in> set (map memberKey (grp_tables g)) \<longrightarrow>
                 (\<exists>cs. GroupNode (groupNodeId g) cs \<in> set (graph_children (buildGraph schema d))
                       \<and> buildTableElkNode t d \<in> set cs))
            \<and> (tableNodeId t \<notin> set (memberKeys schema) \<longrightarrow>
                 TableNode (buildTableElkNode t d) \<in> set (graph_children (buildGraph schema d))))"
proof (intro conjI ballI impI)
  show "list_all (\<lambda>t. count_list (tableIds (buildGraph schema d)) (tableNodeId t) = 1)
                  (tables schema)"
    using count_tableIds [OF assms(1,4)] by (simp add: list_all_iff)
  show "distinct (nodeIds (buildGraph schema d))"
    using assms by (rule distinct_nodeIds)
next
  fix t g
  assume "t \<in> set (tables schema)" "g \<in> set (tableGroups schema)"
    "tableNodeId t \<in> set (map memberKey (grp_tables g))"
  with assms(1) show "\<exists>cs. GroupNode (groupNodeId g) cs \<in> set (graph_children (buildGraph schema d))
                       \<and> buildTableElkNode t d \<in> set cs"
    by (rule placed_in_group)
next
  fix t
  assume "t \<in> set (tables schema)" "tableNodeId t \<notin> set (memberKeys schema)"
  then show "TableNode (buildTableElkNode t d) \<in> set (graph_children (buildGraph schema d))"
    by (rule placed_top_level)
qed


theorem unique_nodes_witness:
  "distinct (map tableNodeId (tables exSchema))
   \<and> distinct (map grp_name (tableGroups exSchema))
   \<and> membersOnce exSchema
   \<and> list_all (\<lambda>t. count_list (tableIds (buildGraph exSchema RIGHT)) (tableNodeId t) = 1)
                (tables exSchema)
   \<and> distinct (nodeIds (buildGraph exSchema RIGHT))"
proof -
  have 1: "distinct (map tableNodeId (tables exSchema))"
    by (simp add: exSchema_def exTable_def tableNodeId_def)
  have 2: "distinct (map grp_name (tableGroups exSchema))"
    by (simp add: exSchema_def)
  have 3: "\<forall>t\<in>set (tables exSchema). \<forall>g\<in>set (tableGroups exSchema).
             tableNodeId t \<noteq> groupNodeId g"
    by (simp add: exSchema_def exTable_def tableNodeId_def groupNodeId_def)
  have 4: "membersOnce exSchema"
    by (simp add: membersOnce_def memberKeys_def exSchema_def exTable_def tableNodeId_def
          memberKey_def)
  from unique_nodes [OF 1 2 3 4, of RIGHT] 1 2 4 show ?thesis by (simp only: simp_thms)
qed

text \<open>
  Claim C10 as worded fails where two groups bear the same name (both compound nodes get
  the id \<open>group:g\<close>), and where a table's identity reads like a group's node id.
\<close>

theorem unique_nodes_counterexample:
  "\<not> claimedUniqueNodes exTwinGroups RIGHT \<and> \<not> claimedUniqueNodes exGroupLikeTable RIGHT"
proof -
  have m1: "membersOnce exTwinGroups"
    by (simp add: membersOnce_def memberKeys_def exTwinGroups_def exTable_def tableNodeId_def
          memberKey_def)
  have i1: "nodeIds (buildGraph exTwinGroups RIGHT)
              = [''group:g'', ''public.A'', ''group:g'', ''public.B'']"
    by (simp add: nodeIds_def buildGraph_def topLevelChildren_def exTwinGroups_def exTable_def
          mkTableMap_def memberKey_def groupNodeId_def ungroupedTables_def mkTableToGroup_def
          Let_def elk_id_build tableNodeId_def)
  have m2: "membersOnce exGroupLikeTable"
    by (simp add: membersOnce_def memberKeys_def exGroupLikeTable_def exTable_def tableNodeId_def
          memberKey_def)
  have i2: "nodeIds (buildGraph exGroupLikeTable RIGHT)
              = [''group:g.x'', ''public.A'', ''group:g.x'']"
    by (simp add: nodeIds_def buildGraph_def topLevelChildren_def exGroupLikeTable_def exTable_def
          mkTableMap_def memberKey_def groupNodeId_def ungroupedTables_def mkTableToGroup_def
          Let_def elk_id_build tableNodeId_def)
  show ?thesis
    by (simp add: claimedUniqueNodes_def m1 m2 i1 i2)
qed

end
